theory Spec2Isabelle
  imports Complex_Main "HOL-Library.Log_Nat" "HOL-Library.Sublist"
begin

section \<open>JavaScript numbers\<close>

text \<open>
  A JavaScript Number is an IEEE-754 binary64 value. The finite ones are modelled by the
  rational they denote, the others by constructors of their own. The two zeros are
  identified: no operation of the code modelled below tells them apart (there is no
  division by a variable, and comparisons treat them as equal).
\<close>

datatype jsnum = NaN | PInf | NInf | Fin rat

definition pow2 :: "int \<Rightarrow> rat" where
  "pow2 e = (if 0 \<le> e then 2 ^ nat e else 1 / 2 ^ nat (- e))"

text \<open>The integer \<open>e\<close> with \<open>2^e \<le> x < 2^(e+1)\<close>, for a positive rational \<open>x\<close>.\<close>

definition ilog2 :: "rat \<Rightarrow> int" where
  "ilog2 x = (let e = bitlen (fst (quotient_of x)) - bitlen (snd (quotient_of x))
              in if pow2 e \<le> x then e else e - 1)"

text \<open>Rounding to the nearest integer, ties to the even one.\<close>

definition rne :: "rat \<Rightarrow> int" where
  "rne x = (let f = \<lfloor>x\<rfloor>; d = x - of_int f
            in if d < 1 / 2 then f
               else if 1 / 2 < d then f + 1
               else if even f then f else f + 1)"

text \<open>
  The spacing of the binary64 grid around \<open>x\<close>: 53 significant bits, and the fixed spacing
  \<open>2^-1074\<close> of the subnormal range below \<open>2^-1022\<close>.
\<close>

definition ulp :: "rat \<Rightarrow> rat" where
  "ulp x = pow2 (max (ilog2 \<bar>x\<bar>) (- 1022) - 52)"

text \<open>The binary64 value nearest to \<open>x\<close>, ties to even, before any overflow.\<close>

definition nearest :: "rat \<Rightarrow> rat" where
  "nearest x = of_int (rne (x / ulp x)) * ulp x"

text \<open>
  The result of every arithmetic operation: the exact value rounded to the nearest
  binary64 value, overflowing to an infinity when the rounded magnitude reaches
  \<open>2^1024\<close>.
\<close>

definition fl :: "rat \<Rightarrow> jsnum" where
  "fl x = (if x = 0 then Fin 0
           else if 1024 \<le> ilog2 \<bar>nearest x\<bar> then (if 0 < x then PInf else NInf)
           else Fin (nearest x))"

definition jneg :: "jsnum \<Rightarrow> jsnum" where
  "jneg a = (case a of NaN \<Rightarrow> NaN | PInf \<Rightarrow> NInf | NInf \<Rightarrow> PInf | Fin x \<Rightarrow> Fin (- x))"

fun jadd :: "jsnum \<Rightarrow> jsnum \<Rightarrow> jsnum" where
  "jadd NaN _ = NaN"
| "jadd _ NaN = NaN"
| "jadd PInf NInf = NaN"
| "jadd NInf PInf = NaN"
| "jadd PInf _ = PInf"
| "jadd _ PInf = PInf"
| "jadd NInf _ = NInf"
| "jadd _ NInf = NInf"
| "jadd (Fin x) (Fin y) = fl (x + y)"

definition jsub :: "jsnum \<Rightarrow> jsnum \<Rightarrow> jsnum" where
  "jsub a b = jadd a (jneg b)"

definition jsign :: "jsnum \<Rightarrow> int" where
  "jsign a = (case a of NaN \<Rightarrow> 0 | PInf \<Rightarrow> 1 | NInf \<Rightarrow> - 1
              | Fin x \<Rightarrow> if x < 0 then - 1 else if x = 0 then 0 else 1)"

fun jmul :: "jsnum \<Rightarrow> jsnum \<Rightarrow> jsnum" where
  "jmul NaN _ = NaN"
| "jmul _ NaN = NaN"
| "jmul (Fin x) (Fin y) = fl (x * y)"
| "jmul a b = (let s = jsign a * jsign b
               in if s = 0 then NaN else if 0 < s then PInf else NInf)"

text \<open>
  Division. The code only divides by the literals 100 and 12, so the sign of a zero
  divisor, which the model does not keep, never matters.
\<close>

fun jdiv :: "jsnum \<Rightarrow> jsnum \<Rightarrow> jsnum" where
  "jdiv NaN _ = NaN"
| "jdiv _ NaN = NaN"
| "jdiv (Fin x) (Fin y) =
     (if y = 0 then (if x = 0 then NaN else if 0 < x then PInf else NInf)
      else fl (x / y))"
| "jdiv (Fin x) _ = Fin 0"
| "jdiv a (Fin y) = (let s = jsign a * (if y < 0 then - 1 else 1)
                     in if 0 < s then PInf else NInf)"
| "jdiv _ _ = NaN"

text \<open>Comparisons: every comparison with \<open>NaN\<close> is false.\<close>

fun jlt :: "jsnum \<Rightarrow> jsnum \<Rightarrow> bool" where
  "jlt NaN _ = False"
| "jlt _ NaN = False"
| "jlt (Fin x) (Fin y) = (x < y)"
| "jlt NInf NInf = False"
| "jlt NInf _ = True"
| "jlt _ NInf = False"
| "jlt PInf _ = False"
| "jlt _ PInf = True"

definition jgt :: "jsnum \<Rightarrow> jsnum \<Rightarrow> bool" where
  "jgt a b = jlt b a"

definition jle :: "jsnum \<Rightarrow> jsnum \<Rightarrow> bool" where
  "jle a b = (a \<noteq> NaN \<and> b \<noteq> NaN \<and> \<not> jlt b a)"

definition jge :: "jsnum \<Rightarrow> jsnum \<Rightarrow> bool" where
  "jge a b = jle b a"

text \<open>Truthiness of a number (\<open>n || 0\<close>, \<open>!n\<close>): false for \<open>NaN\<close> and zero.\<close>

definition truthy :: "jsnum \<Rightarrow> bool" where
  "truthy a = (a \<noteq> NaN \<and> a \<noteq> Fin 0)"

definition or_zero :: "jsnum \<Rightarrow> jsnum" where
  "or_zero a = (if truthy a then a else Fin 0)"

definition math_max :: "jsnum \<Rightarrow> jsnum \<Rightarrow> jsnum" where
  "math_max a b = (if a = NaN \<or> b = NaN then NaN else if jlt a b then b else a)"

text \<open>\<open>Math.round\<close>: the integer \<open>floor(x + 1/2)\<close>, computed exactly.\<close>

definition math_round :: "jsnum \<Rightarrow> jsnum" where
  "math_round a = (case a of Fin x \<Rightarrow> Fin (of_int \<lfloor>x + 1 / 2\<rfloor>) | _ \<Rightarrow> a)"

text \<open>A decimal literal of the source denotes the binary64 value nearest to it.\<close>

definition lit :: "rat \<Rightarrow> jsnum" where
  "lit x = fl x"

section \<open>Tax calculators (app.js)\<close>

text \<open>
  The \<open>reliefs\<close> argument after \<open>Number(...)\<close>: an absent or non-numeric field is \<open>NaN\<close>.
\<close>

record reliefs =
  pension :: jsnum
  nhf :: jsnum
  other :: jsnum

record paye_result =
  grossIncome :: jsnum
  totalReliefs :: jsnum
  taxableIncome :: jsnum
  annualTax :: jsnum
  monthlyTax :: jsnum

text \<open>The band schedule: \<open>let tax = 0; if (taxable > 0) { ... }\<close>.\<close>

definition band_tax :: "jsnum \<Rightarrow> jsnum" where
  "band_tax taxable =
     (if jgt taxable (Fin 0) then
        if jle taxable (Fin 300000) then jmul taxable (lit 0.07)
        else if jle taxable (Fin 600000) then
          jadd (Fin 21000) (jmul (jsub taxable (Fin 300000)) (lit 0.11))
        else if jle taxable (Fin 1100000) then
          jadd (Fin 54000) (jmul (jsub taxable (Fin 600000)) (lit 0.15))
        else if jle taxable (Fin 1600000) then
          jadd (Fin 129000) (jmul (jsub taxable (Fin 1100000)) (lit 0.19))
        else if jle taxable (Fin 3200000) then
          jadd (Fin 224000) (jmul (jsub taxable (Fin 1600000)) (lit 0.21))
        else jadd (Fin 560000) (jmul (jsub taxable (Fin 3200000)) (lit 0.24))
      else Fin 0)"

definition standardRelief :: "jsnum \<Rightarrow> jsnum" where
  "standardRelief g = jadd (Fin 200000) (jmul g (lit 0.2))"

definition total_reliefs :: "jsnum \<Rightarrow> reliefs \<Rightarrow> jsnum" where
  "total_reliefs g r =
     jadd (jadd (jadd (or_zero (pension r)) (or_zero (nhf r))) (or_zero (other r)))
          (standardRelief g)"

definition taxable_income :: "jsnum \<Rightarrow> reliefs \<Rightarrow> jsnum" where
  "taxable_income g r = math_max (jsub g (total_reliefs g r)) (Fin 0)"

definition calculatePAYE :: "jsnum \<Rightarrow> reliefs \<Rightarrow> paye_result" where
  "calculatePAYE g r =
     (let tax = band_tax (taxable_income g r)
      in \<lparr> grossIncome = g,
           totalReliefs = total_reliefs g r,
           taxableIncome = taxable_income g r,
           annualTax = math_round tax,
           monthlyTax = math_round (jdiv tax (Fin 12)) \<rparr>)"

definition calculateVAT :: "jsnum \<Rightarrow> jsnum" where
  "calculateVAT amount = jdiv (math_round (jmul (jmul amount (lit 0.075)) (Fin 100))) (Fin 100)"

text \<open>
  dashboard.js installs a replacement when the application object has no \<open>calculateVAT\<close>:
  \<open>Number((amount * 0.075).toFixed(2))\<close>. \<open>toFixed(2)\<close> rounds the exact value of the product
  to two decimals, ties away from zero, and leaves numbers of magnitude \<open>10^21\<close> or more,
  infinities and \<open>NaN\<close> as they are.
\<close>

definition calculateVAT_fallback :: "jsnum \<Rightarrow> jsnum" where
  "calculateVAT_fallback amount =
     (case jmul amount (lit 0.075) of
        Fin x \<Rightarrow>
          if \<bar>x\<bar> < 10 ^ 21
          then fl ((if x < 0 then - 1 else 1) * of_int \<lfloor>\<bar>x\<bar> * 100 + 1 / 2\<rfloor> / 100)
          else Fin x
      | product \<Rightarrow> product)"

definition no_reliefs :: reliefs where
  "no_reliefs = \<lparr> pension = Fin 0, nhf = Fin 0, other = Fin 0 \<rparr>"


section \<open>Strings\<close>

text \<open>
  A JavaScript string is a sequence of UTF-16 code units; \<open>length\<close>, \<open>substring\<close> and
  regular expressions without the \<open>u\<close> flag all work on code units. A code unit is
  written as the integer it is, between 0 and 65535.
\<close>

type_synonym jstring = "int list"

definition str :: "string \<Rightarrow> jstring" where
  "str s = map of_char s"

definition is_digit :: "int \<Rightarrow> bool" where
  "is_digit c = (48 \<le> c \<and> c \<le> 57)"

text \<open>\<open>\w\<close>: ASCII letters, digits and the underscore.\<close>

definition is_word :: "int \<Rightarrow> bool" where
  "is_word c = (is_digit c \<or> (65 \<le> c \<and> c \<le> 90) \<or> (97 \<le> c \<and> c \<le> 122) \<or> c = 95)"

text \<open>\<open>\s\<close> and \<open>trim\<close>: the white space and line terminator code units of ECMAScript.\<close>

definition is_space :: "int \<Rightarrow> bool" where
  "is_space c = (c \<in> {9, 10, 11, 12, 13, 32, 160, 5760, 8232, 8233, 8239, 8287, 12288, 65279}
                 \<or> (8192 \<le> c \<and> c \<le> 8202))"

definition trim :: "jstring \<Rightarrow> jstring" where
  "trim s = rev (dropWhile is_space (rev (dropWhile is_space s)))"

text \<open>\<open>s.split(c)\<close> for a separator of one code unit; the result is never empty.\<close>

fun split_on :: "int \<Rightarrow> jstring \<Rightarrow> jstring list" where
  "split_on sep [] = [[]]"
| "split_on sep (c # cs) =
     (if c = sep then [] # split_on sep cs
      else (case split_on sep cs of
              [] \<Rightarrow> [[c]]
            | w # ws \<Rightarrow> (c # w) # ws))"

text \<open>\<open>s.replace(pat, '')\<close> for a string pattern: the first occurrence of \<open>pat\<close> is removed.\<close>

fun remove_first :: "jstring \<Rightarrow> jstring \<Rightarrow> jstring" where
  "remove_first pat [] = []"
| "remove_first pat (c # cs) =
     (if prefix pat (c # cs) then drop (length pat) (c # cs)
      else c # remove_first pat cs)"

text \<open>\<open>s.includes(pat)\<close>.\<close>

fun str_includes :: "jstring \<Rightarrow> jstring \<Rightarrow> bool" where
  "str_includes [] pat = (pat = [])"
| "str_includes (c # cs) pat = (prefix pat (c # cs) \<or> str_includes cs pat)"

text \<open>
  Lower-casing of the ASCII letters. \<open>toLowerCase\<close> and the \<open>i\<close> flag are only used to look
  for ASCII words, and no other code unit is lower-cased to a letter of those words.
\<close>

definition lower_ascii :: "jstring \<Rightarrow> jstring" where
  "lower_ascii s = map (\<lambda>c. if 65 \<le> c \<and> c \<le> 90 then c + 32 else c) s"

text \<open>\<open>s.replace(/\s+/g, ' ')\<close>: every maximal run of white space becomes one space.\<close>

function collapse_spaces :: "jstring \<Rightarrow> jstring" where
  "collapse_spaces [] = []"
| "collapse_spaces (c # cs) =
     (if is_space c then 32 # collapse_spaces (dropWhile is_space cs)
      else c # collapse_spaces cs)"
  by pat_completeness auto
termination
  by (relation "measure length") (auto intro: le_imp_less_Suc length_dropWhile_le)

subsection \<open>parseFloat\<close>

definition digits_value :: "jstring \<Rightarrow> int" where
  "digits_value ds = foldl (\<lambda>a c. 10 * a + (c - 48)) 0 ds"

definition pow10 :: "int \<Rightarrow> rat" where
  "pow10 e = (if 0 \<le> e then 10 ^ nat e else 1 / 10 ^ nat (- e))"

text \<open>The exponent part \<open>e[+-]digits\<close> of a decimal literal, 0 when there is none.\<close>

definition exponent_part :: "jstring \<Rightarrow> int" where
  "exponent_part s =
     (case s of
        [] \<Rightarrow> 0
      | c # r \<Rightarrow>
          if c = 101 \<or> c = 69 then
            (case r of
               [] \<Rightarrow> 0
             | d # r' \<Rightarrow>
                 if d = 45 then
                   (if takeWhile is_digit r' = [] then 0
                    else - digits_value (takeWhile is_digit r'))
                 else if d = 43 then digits_value (takeWhile is_digit r')
                 else digits_value (takeWhile is_digit r))
          else 0)"

text \<open>An unsigned decimal literal at the start of \<open>s\<close>, if there is one.\<close>

definition unsigned_literal :: "jstring \<Rightarrow> jsnum" where
  "unsigned_literal s =
     (if prefix (str ''Infinity'') s then PInf
      else let d1 = takeWhile is_digit s;
               r1 = dropWhile is_digit s;
               d2 = (case r1 of [] \<Rightarrow> [] | c # r \<Rightarrow> if c = 46 then takeWhile is_digit r else []);
               r2 = (case r1 of [] \<Rightarrow> [] | c # r \<Rightarrow> if c = 46 then dropWhile is_digit r else r1)
           in if d1 = [] \<and> d2 = [] then NaN
              else fl (of_int (digits_value (d1 @ d2))
                       * pow10 (exponent_part r2 - int (length d2))))"

definition parseFloat :: "jstring \<Rightarrow> jsnum" where
  "parseFloat s =
     (case dropWhile is_space s of
        [] \<Rightarrow> NaN
      | c # r \<Rightarrow>
          if c = 45 then jneg (unsigned_literal r)
          else if c = 43 then unsigned_literal r
          else unsigned_literal (c # r))"

subsection \<open>Number\<close>

text \<open>
  \<open>Number(s)\<close> on a string: white space is trimmed from both ends, the empty text is 0, and
  the rest must be a numeric literal as a whole: a hexadecimal, octal or binary integer, or
  a decimal literal with an optional sign. Anything else is \<open>NaN\<close>.
\<close>

definition hex_digit :: "int \<Rightarrow> bool" where
  "hex_digit c = (is_digit c \<or> (97 \<le> c \<and> c \<le> 102) \<or> (65 \<le> c \<and> c \<le> 70))"

definition radix_value :: "int \<Rightarrow> jstring \<Rightarrow> int" where
  "radix_value radix ds =
     foldl (\<lambda>a c. radix * a + (if is_digit c then c - 48 else if 97 \<le> c then c - 87 else c - 55))
           0 ds"

definition radix_literal :: "jstring \<Rightarrow> jsnum option" where
  "radix_literal t =
     (case t of
        z # x # ds \<Rightarrow>
          if z = 48 \<and> ds \<noteq> [] then
            (if (x = 120 \<or> x = 88) \<and> list_all hex_digit ds
             then Some (fl (of_int (radix_value 16 ds)))
             else if (x = 111 \<or> x = 79) \<and> list_all (\<lambda>c. 48 \<le> c \<and> c \<le> 55) ds
             then Some (fl (of_int (radix_value 8 ds)))
             else if (x = 98 \<or> x = 66) \<and> list_all (\<lambda>c. c = 48 \<or> c = 49) ds
             then Some (fl (of_int (radix_value 2 ds)))
             else None)
          else None
      | _ \<Rightarrow> None)"

text \<open>
  What an exponent part at the start of \<open>s\<close> leaves unread; without digits after the \<open>e\<close> and
  its sign there is no exponent part and nothing is read.
\<close>

definition after_exponent :: "jstring \<Rightarrow> jstring" where
  "after_exponent s =
     (case s of
        [] \<Rightarrow> []
      | c # r \<Rightarrow>
          if c = 101 \<or> c = 69 then
            (let r' = (case r of [] \<Rightarrow> [] | d # t \<Rightarrow> if d = 45 \<or> d = 43 then t else r)
             in if takeWhile is_digit r' = [] then s else dropWhile is_digit r')
          else s)"

text \<open>What the unsigned decimal literal at the start of \<open>s\<close> leaves unread, if there is one.\<close>

definition literal_rest :: "jstring \<Rightarrow> jstring option" where
  "literal_rest s =
     (let d1 = takeWhile is_digit s;
          r1 = dropWhile is_digit s;
          d2 = (case r1 of [] \<Rightarrow> [] | c # r \<Rightarrow> if c = 46 then takeWhile is_digit r else []);
          r2 = (case r1 of [] \<Rightarrow> [] | c # r \<Rightarrow> if c = 46 then dropWhile is_digit r else r1)
      in if d1 = [] \<and> d2 = [] then None else Some (after_exponent r2))"

definition to_number :: "jstring \<Rightarrow> jsnum" where
  "to_number s =
     (case trim s of
        [] \<Rightarrow> Fin 0
      | c # r \<Rightarrow>
          (case radix_literal (c # r) of
             Some v \<Rightarrow> v
           | None \<Rightarrow>
               (let u = (if c = 45 \<or> c = 43 then r else c # r)
                in if u = str ''Infinity'' then (if c = 45 then NInf else PInf)
                   else if literal_rest u = Some []
                   then (if c = 45 then jneg (unsigned_literal u) else unsigned_literal u)
                   else NaN)))"


section \<open>Receipt extraction (dashboard.js)\<close>

subsection \<open>The monetary-token pattern \<open>/[\d,]+\.?\d{0,2}/g\<close>\<close>

definition is_numch :: "int \<Rightarrow> bool" where
  "is_numch c = (is_digit c \<or> c = 44)"

text \<open>
  What the pattern consumes after its first code unit: the rest of the run of digits and
  commas, a dot if one follows, and up to two digits. Every part after the first code
  unit may be empty, so the greedy match never backtracks. The result is the matched text
  and the unread rest.
\<close>

definition token_tail :: "jstring \<Rightarrow> jstring \<times> jstring" where
  "token_tail s =
     (let run = takeWhile is_numch s;
          r1 = dropWhile is_numch s;
          dot = (case r1 of [] \<Rightarrow> [] | c # _ \<Rightarrow> if c = 46 then [c] else []);
          r2 = drop (length dot) r1;
          frac = takeWhile is_digit (take 2 r2)
      in (run @ dot @ frac, drop (length frac) r2))"

text \<open>\<open>line.match(re) || []\<close>: all matches, left to right, each search resuming where the
  previous match ended.\<close>

function match_amounts :: "jstring \<Rightarrow> jstring list" where
  "match_amounts [] = []"
| "match_amounts (c # cs) =
     (if is_numch c
      then (c # fst (token_tail cs)) # match_amounts (snd (token_tail cs))
      else match_amounts cs)"
  by pat_completeness auto
termination
proof (relation "measure length")
  show "wf (measure length)" by simp
next
  fix c :: int and cs :: jstring
  assume "is_numch c"
  have "length (dropWhile is_numch cs) \<le> length cs"
    by (rule length_dropWhile_le)
  then have "length (snd (token_tail cs)) \<le> length cs"
    by (simp add: token_tail_def Let_def)
  then show "(snd (token_tail cs), c # cs) \<in> measure length" by simp
next
  fix c :: int and cs :: jstring
  show "(cs, c # cs) \<in> measure length" by simp
qed

subsection \<open>Candidate lines\<close>

record candidate =
  cid :: jstring
  ctype :: jstring
  camount :: jsnum
  cdetails :: jstring

definition remove_commas :: "jstring \<Rightarrow> jstring" where
  "remove_commas s = filter (\<lambda>c. c \<noteq> 44) s"

definition rawAmount :: "jstring \<Rightarrow> jsnum" where
  "rawAmount numStr = parseFloat (remove_commas numStr)"

definition in_range :: "jsnum \<Rightarrow> bool" where
  "in_range a = (jge a (Fin 100) \<and> jle a (Fin 10000000))"

text \<open>\<open>/vat|tax|excise|levy/i.test(line)\<close>.\<close>

definition classify :: "jstring \<Rightarrow> jstring" where
  "classify line =
     (if list_ex (str_includes (lower_ascii line))
           [str ''vat'', str ''tax'', str ''excise'', str ''levy'']
      then str ''VAT'' else str ''Consumption'')"

text \<open>
  \<open>line.replace(numStr, '').replace(/[^\w\s]/g, ' ').replace(/\s+/g, ' ').trim().substring(0, 50)\<close>
\<close>

definition blank_nonword :: "jstring \<Rightarrow> jstring" where
  "blank_nonword s = map (\<lambda>c. if is_word c \<or> is_space c then c else 32) s"

definition clean_details :: "jstring \<Rightarrow> jstring \<Rightarrow> jstring" where
  "clean_details line numStr =
     take 50 (trim (collapse_spaces (blank_nonword (remove_first numStr line))))"

text \<open>dashboard.js: \<open>... || 'Receipt Item'\<close>.\<close>

definition details_of :: "jstring \<Rightarrow> jstring \<Rightarrow> jstring" where
  "details_of line numStr =
     (let d = clean_details line numStr in if d = [] then str ''Receipt Item'' else d)"

text \<open>
  The other copy of \<open>processReceiptWithOCR\<close> (the localStorage build):
  \<open>if (!details || details.length < 3) details = 'Receipt Item'\<close>.
\<close>

definition details_of_local :: "jstring \<Rightarrow> jstring \<Rightarrow> jstring" where
  "details_of_local line numStr =
     (let d = clean_details line numStr
      in if d = [] \<or> length d < 3 then str ''Receipt Item'' else d)"

text \<open>
  The candidates of one line, in match order, without their ids: the body of
  \<open>matches.forEach\<close> with the detail rule \<open>det\<close> of the build.
\<close>

definition line_candidates ::
  "(jstring \<Rightarrow> jstring \<Rightarrow> jstring) \<Rightarrow> jstring \<Rightarrow> (jstring \<times> jsnum \<times> jstring) list" where
  "line_candidates det line =
     map (\<lambda>numStr. (classify line, rawAmount numStr, det line numStr))
         (filter (\<lambda>numStr. in_range (rawAmount numStr)) (match_amounts line))"

text \<open>
  The candidate list built from the recognised text of one image. The id of a line ends
  in a random suffix; \<open>ids k\<close> stands for the id drawn for the \<open>k\<close>-th candidate.
\<close>

definition extract_with ::
  "(jstring \<Rightarrow> jstring \<Rightarrow> jstring) \<Rightarrow> (nat \<Rightarrow> jstring) \<Rightarrow> jstring \<Rightarrow> candidate list" where
  "extract_with det ids text =
     map (\<lambda>(k, (t, a, d)). \<lparr> cid = ids k, ctype = t, camount = a, cdetails = d \<rparr>)
         (enumerate 0 (concat (map (line_candidates det) (split_on 10 text))))"

definition processReceiptWithOCR :: "(nat \<Rightarrow> jstring) \<Rightarrow> jstring \<Rightarrow> candidate list" where
  "processReceiptWithOCR ids text = extract_with details_of ids text"

definition processReceiptWithOCR_local :: "(nat \<Rightarrow> jstring) \<Rightarrow> jstring \<Rightarrow> candidate list" where
  "processReceiptWithOCR_local ids text = extract_with details_of_local ids text"

subsection \<open>The earlier build: \<open>processReceiptEditable\<close>\<close>

text \<open>
  Its pattern is \<open>/(\d{2,3}(?:,\d{3})*(?:\.\d{2})?)/g\<close>: two or three digits, then groups
  of a comma and three digits, then an optional dot and two digits. Again every part
  after the leading digits is optional and the match never backtracks.
\<close>

fun comma_groups :: "jstring \<Rightarrow> jstring \<times> jstring" where
  "comma_groups (c # d1 # d2 # d3 # r) =
     (if c = 44 \<and> is_digit d1 \<and> is_digit d2 \<and> is_digit d3
      then (c # d1 # d2 # d3 # fst (comma_groups r), snd (comma_groups r))
      else ([], c # d1 # d2 # d3 # r))"
| "comma_groups s = ([], s)"

definition decimals2 :: "jstring \<Rightarrow> jstring \<times> jstring" where
  "decimals2 s =
     (case s of
        c # d1 # d2 # r \<Rightarrow>
          if c = 46 \<and> is_digit d1 \<and> is_digit d2 then ([c, d1, d2], r) else ([], s)
      | _ \<Rightarrow> ([], s))"

definition editable_token :: "jstring \<Rightarrow> (jstring \<times> jstring) option" where
  "editable_token s =
     (let lead = takeWhile is_digit (take 3 s)
      in if length lead < 2 then None
         else let g = comma_groups (drop (length lead) s);
                  d = decimals2 (snd g)
              in Some (lead @ fst g @ fst d, snd d))"

function match_editable :: "jstring \<Rightarrow> jstring list" where
  "match_editable [] = []"
| "match_editable (c # cs) =
     (case editable_token (c # cs) of
        None \<Rightarrow> match_editable cs
      | Some (m, r) \<Rightarrow> m # match_editable r)"
  by pat_completeness auto
termination
proof (relation "measure length")
  show "wf (measure length)" by simp
next
  fix c :: int and cs :: jstring
  show "(cs, c # cs) \<in> measure length" by simp
next
  fix c :: int and cs m r :: jstring and x :: "jstring \<times> jstring"
  assume tok: "editable_token (c # cs) = Some x" and x: "(m, r) = x"
  have groups: "length (snd (comma_groups t)) \<le> length t" for t
    by (induction t rule: comma_groups.induct) auto
  have decimals: "length (snd (decimals2 t)) \<le> length t" for t
    by (auto simp: decimals2_def split: list.splits)
  have shorter: "length r' < length s" if some: "editable_token s = Some (m', r')"
    for s m' r' :: jstring
  proof -
    let ?lead = "takeWhile is_digit (take 3 s)"
    from some have two: "2 \<le> length ?lead"
      and r': "r' = snd (decimals2 (snd (comma_groups (drop (length ?lead) s))))"
      by (auto simp: editable_token_def Let_def split: if_splits)
    have "length ?lead \<le> length s"
      by (rule order_trans [OF length_takeWhile_le]) simp
    moreover have "length r' \<le> length (drop (length ?lead) s)"
      unfolding r' by (rule order_trans [OF decimals groups])
    ultimately show ?thesis using two by simp
  qed
  from tok x have "editable_token (c # cs) = Some (m, r)" by simp
  then have "length r < length (c # cs)" by (rule shorter)
  then show "(r, c # cs) \<in> measure length" by simp
qed

record editable_line =
  etype :: jstring
  eamount :: jsnum
  edetails :: jstring

text \<open>
  \<open>Number(numStr.replace(/,/g, ''))\<close>: on the texts this pattern matches, \<open>Number\<close> and
  \<open>parseFloat\<close> read the same value. The second test of the type,
  \<open>rawAmount < 1000 && /vat|tax/i.test(line)\<close>, is only reached when the first has failed
  and then fails as well.
\<close>

definition classify_editable :: "jstring \<Rightarrow> jstring" where
  "classify_editable line =
     (if list_ex (str_includes (lower_ascii line)) [str ''vat'', str ''tax'', str ''excise'']
      then str ''VAT'' else str ''Consumption'')"

definition processReceiptEditable :: "jstring \<Rightarrow> editable_line list" where
  "processReceiptEditable text =
     concat (map (\<lambda>line.
        map (\<lambda>numStr. \<lparr> etype = classify_editable line,
                         eamount = rawAmount numStr,
                         edetails = (let d = trim (remove_first numStr line)
                                     in if d = [] then str ''Receipt Entry'' else d) \<rparr>)
            (filter (\<lambda>numStr. jgt (rawAmount numStr) (Fin 0)) (match_editable line)))
        (split_on 10 text))"


section \<open>The transaction ledger (app.js)\<close>

record transaction =
  tx_id :: jstring
  tx_date :: jstring
  tx_type :: jstring
  tx_amount :: jsnum
  tx_details :: jstring
  tx_createdAt :: jstring

text \<open>
  The argument of \<open>addTransaction\<close>. An absent \<open>date\<close> or \<open>details\<close> is the empty string
  (both are falsy), and \<open>new_amount\<close> is \<open>Number(transaction.amount)\<close>.
\<close>

record new_transaction =
  new_date :: jstring
  new_type :: jstring
  new_amount :: jsnum
  new_details :: jstring

text \<open>
  What one call reads from outside the program: the id made from \<open>Date.now()\<close> and
  \<open>Math.random()\<close>, the current date and time, and whether \<open>localStorage.setItem\<close>
  succeeds.
\<close>

record clock =
  fresh_id :: jstring
  today :: jstring
  now_iso :: jstring
  storage_ok :: bool

record app =
  transactions :: "transaction list"
  stored :: "transaction list"

definition empty_app :: app where
  "empty_app = \<lparr> transactions = [], stored = [] \<rparr>"

text \<open>\<open>saveTransactions\<close>: a failing write is caught and the memory list stays as it is.\<close>

definition saveTransactions :: "clock \<Rightarrow> app \<Rightarrow> app" where
  "saveTransactions ck a = (if storage_ok ck then a\<lparr>stored := transactions a\<rparr> else a)"

definition make_transaction :: "clock \<Rightarrow> new_transaction \<Rightarrow> transaction" where
  "make_transaction ck t =
     \<lparr> tx_id = fresh_id ck,
       tx_date = (if new_date t = [] then today ck else new_date t),
       tx_type = new_type t,
       tx_amount = new_amount t,
       tx_details = new_details t,
       tx_createdAt = now_iso ck \<rparr>"

definition addTransaction :: "clock \<Rightarrow> new_transaction \<Rightarrow> app \<Rightarrow> app" where
  "addTransaction ck t a =
     saveTransactions ck (a\<lparr>transactions := transactions a @ [make_transaction ck t]\<rparr>)"

definition deleteTransaction :: "clock \<Rightarrow> jstring \<Rightarrow> app \<Rightarrow> app" where
  "deleteTransaction ck i a =
     saveTransactions ck (a\<lparr>transactions := filter (\<lambda>tx. tx_id tx \<noteq> i) (transactions a)\<rparr>)"

text \<open>A sequence of \<open>addTransaction\<close> calls, each with its own reading of the outside.\<close>

definition add_all :: "(clock \<times> new_transaction) list \<Rightarrow> app \<Rightarrow> app" where
  "add_all calls a = foldl (\<lambda>s (ck, t). addTransaction ck t s) a calls"

definition tax_types :: "jstring set" where
  "tax_types = {str ''PAYE'', str ''VAT'', str ''Consumption''}"

definition valid_transaction :: "transaction \<Rightarrow> bool" where
  "valid_transaction tx = (jge (tx_amount tx) (Fin 0) \<and> tx_type tx \<in> tax_types)"

section \<open>Confirming the reviewed lines (dashboard.js)\<close>










subsection \<open>The earlier build's confirm handler\<close>

text \<open>
  The earlier build keeps its ledger in \<open>taxData.transactions\<close>; its \<open>addTransaction\<close> appends
  the four values it is given.
\<close>

record legacy_transaction =
  ldate :: jstring
  ltype :: jstring
  lamount :: jsnum
  ldetails :: jstring

text \<open>
  The ids of a preview row are made of the index \<open>idx\<close> and the amount of the line, so the
  preview is read at that pair.
\<close>

record legacy_preview =
  lcheck_el :: "nat \<Rightarrow> jsnum \<Rightarrow> bool option"
  lamount_el :: "nat \<Rightarrow> jsnum \<Rightarrow> jstring option"
  ltype_el :: "nat \<Rightarrow> jsnum \<Rightarrow> jstring option"
  ldetails_el :: "nat \<Rightarrow> jsnum \<Rightarrow> jstring option"

text \<open>
  The body of its \<open>ocrLines.forEach((line, idx) => ...)\<close>: the amount is \<open>Number\<close> of the edited
  value and there is no test of it.
\<close>

definition confirm_legacy_line ::
  "jstring \<Rightarrow> legacy_preview \<Rightarrow> nat \<Rightarrow> editable_line \<Rightarrow> legacy_transaction list
     \<Rightarrow> legacy_transaction list" where
  "confirm_legacy_line dateStr pv idx line txs =
     (case (lcheck_el pv idx (eamount line), lamount_el pv idx (eamount line),
            ltype_el pv idx (eamount line), ldetails_el pv idx (eamount line)) of
        (Some checked, Some amountValue, Some type, Some details) \<Rightarrow>
          if checked then
            (let amount = to_number amountValue
             in if type = str ''VAT''
                then txs @ [\<lparr> ldate = dateStr, ltype = str ''VAT'',
                               lamount = jmul amount (lit 0.075), ldetails = details \<rparr>]
                else txs @ [\<lparr> ldate = dateStr, ltype = str ''Consumption'',
                               lamount = amount, ldetails = details \<rparr>])
          else txs
      | _ \<Rightarrow> txs)"

fun confirm_legacy_from ::
  "jstring \<Rightarrow> legacy_preview \<Rightarrow> nat \<Rightarrow> editable_line list \<Rightarrow> legacy_transaction list
     \<Rightarrow> legacy_transaction list" where
  "confirm_legacy_from dateStr pv idx [] txs = txs"
| "confirm_legacy_from dateStr pv idx (line # ls) txs =
     confirm_legacy_from dateStr pv (Suc idx) ls (confirm_legacy_line dateStr pv idx line txs)"

definition confirm_legacy ::
  "jstring \<Rightarrow> legacy_preview \<Rightarrow> editable_line list \<Rightarrow> legacy_transaction list
     \<Rightarrow> legacy_transaction list" where
  "confirm_legacy dateStr pv ocrLines txs = confirm_legacy_from dateStr pv 0 ocrLines txs"




section \<open>CSV import (dashboard.js)\<close>

definition strip_quotes :: "jstring \<Rightarrow> jstring" where
  "strip_quotes s = filter (\<lambda>c. c \<noteq> 34) s"

text \<open>\<open>line.split(',').map(c => c.trim().replace(/"/g, ''))\<close>\<close>

definition csv_cols :: "jstring \<Rightarrow> jstring list" where
  "csv_cols line = map (\<lambda>c. strip_quotes (trim c)) (split_on 44 line)"

text \<open>\<open>parseFloat\<close> of the field without its commas and naira signs (code unit 8358).\<close>

definition col_number :: "jstring \<Rightarrow> jsnum" where
  "col_number col = parseFloat (filter (\<lambda>c. c \<noteq> 8358 \<and> c \<noteq> 44) col)"

text \<open>One round of \<open>for (const col of cols)\<close> on the pair \<open>(amount, details)\<close>.\<close>

definition scan_col :: "jsnum \<times> jstring \<Rightarrow> jstring \<Rightarrow> jsnum \<times> jstring" where
  "scan_col ad col =
     (let numVal = col_number col
      in if numVal \<noteq> NaN \<and> jgt numVal (Fin 0) \<and> fst ad = Fin 0 then (numVal, snd ad)
         else if col \<noteq> [] \<and> \<not> truthy numVal \<and> 2 < length col then (fst ad, col)
         else ad)"

definition scan_cols :: "jstring list \<Rightarrow> jsnum \<times> jstring" where
  "scan_cols cols = foldl scan_col (Fin 0, []) cols"

text \<open>The amount and details of a data row, when it has at least two fields.\<close>

definition parse_row :: "jstring \<Rightarrow> (jsnum \<times> jstring) option" where
  "parse_row line =
     (let cols = csv_cols line in if 2 \<le> length cols then Some (scan_cols cols) else None)"

definition import_row ::
  "(jsnum \<Rightarrow> jsnum) \<Rightarrow> jstring \<Rightarrow> clock \<Rightarrow> jstring \<Rightarrow> app \<Rightarrow> app" where
  "import_row calcVAT fileName ck line a =
     (case parse_row line of
        None \<Rightarrow> a
      | Some (amount, details) \<Rightarrow>
          if jgt amount (Fin 0) then
            addTransaction ck
              \<lparr> new_date = [],
                new_type = str ''VAT'',
                new_amount = calcVAT amount,
                new_details = (if details = [] then str ''CSV Import: '' @ fileName
                               else details) \<rparr> a
          else a)"

fun import_rows ::
  "(jsnum \<Rightarrow> jsnum) \<Rightarrow> jstring \<Rightarrow> (nat \<Rightarrow> clock) \<Rightarrow> nat \<Rightarrow> jstring list \<Rightarrow> app \<Rightarrow> app" where
  "import_rows calcVAT fileName cks i [] a = a"
| "import_rows calcVAT fileName cks i (line # ls) a =
     import_rows calcVAT fileName cks (Suc i) ls (import_row calcVAT fileName (cks i) line a)"

datatype csv_error = TypeError

text \<open>
  \<open>processCSV\<close>, with the \<open>calculateVAT\<close> of the application object as \<open>calcVAT\<close>. A file
  without a non-blank line makes \<open>lines[0].toLowerCase()\<close> throw; the handler catches it
  and the ledger is unchanged. Row \<open>i\<close> is committed with the reading \<open>cks i\<close>.
\<close>

definition processCSV ::
  "(jsnum \<Rightarrow> jsnum) \<Rightarrow> jstring \<Rightarrow> (nat \<Rightarrow> clock) \<Rightarrow> jstring \<Rightarrow> app \<Rightarrow> csv_error + app" where
  "processCSV calcVAT fileName cks text a =
     (case filter (\<lambda>line. trim line \<noteq> []) (split_on 10 text) of
        [] \<Rightarrow> Inl TypeError
      | first # rest \<Rightarrow>
          (let startIndex =
                 (if str_includes (lower_ascii first) (str ''date'')
                     \<or> str_includes (lower_ascii first) (str ''amount'') then 1 else 0 :: nat)
           in Inr (import_rows calcVAT fileName cks startIndex
                     (drop startIndex (first # rest)) a)))"

section \<open>The specification's wording, and sample inputs\<close>

text \<open>
  The two-decimal rounding the specification writes as \<open>round(x, 2dp)\<close>, on exact
  numbers, and the VAT it asks for: the binary64 value of \<open>amount * 0.075\<close> so rounded.
\<close>

definition round2dp :: "rat \<Rightarrow> rat" where
  "round2dp x = of_int \<lfloor>x * 100 + 1 / 2\<rfloor> / 100"

definition vat_spec :: "rat \<Rightarrow> jsnum" where
  "vat_spec amount = fl (round2dp (amount * (75 / 1000)))"

text \<open>The specification's monthly tax: the rounded annual tax, divided by 12 and rounded.\<close>

definition monthly_spec :: "paye_result \<Rightarrow> jsnum" where
  "monthly_spec r = math_round (jdiv (annualTax r) (Fin 12))"

text \<open>
  The specification's details of a candidate: characters that are neither letters, digits
  nor white space are deleted, and a result shorter than three characters is replaced.
\<close>

definition is_alnum :: "int \<Rightarrow> bool" where
  "is_alnum c = (is_digit c \<or> (65 \<le> c \<and> c \<le> 90) \<or> (97 \<le> c \<and> c \<le> 122))"

definition details_spec :: "jstring \<Rightarrow> jstring \<Rightarrow> jstring" where
  "details_spec line numStr =
     (let d = take 50 (trim (collapse_spaces
                (filter (\<lambda>c. is_alnum c \<or> is_space c) (remove_first numStr line))))
      in if d = [] \<or> length d < 3 then str ''Receipt Item'' else d)"

text \<open>The specification's CSV details: the first field that is no number and longer than
  two characters.\<close>

definition csv_details_spec :: "jstring list \<Rightarrow> jstring" where
  "csv_details_spec cols =
     (case find (\<lambda>col. col_number col = NaN \<and> 2 < length col) cols of
        None \<Rightarrow> [] | Some col \<Rightarrow> col)"

text \<open>What the code does: the amount is the first positive field, and a field is kept as
  details when its number is \<open>NaN\<close> or zero and it is longer than two code units.\<close>

definition first_amount :: "jstring list \<Rightarrow> jsnum" where
  "first_amount cols =
     (case find (\<lambda>col. jgt (col_number col) (Fin 0)) cols of
        None \<Rightarrow> Fin 0 | Some col \<Rightarrow> col_number col)"

definition is_details_col :: "jstring \<Rightarrow> bool" where
  "is_details_col col = (\<not> truthy (col_number col) \<and> 2 < length col)"

text \<open>
  The last field that is no number and longer than two code units, and the fields the
  amended claim speaks of: a field that \<open>parseFloat\<close> reads as a number is a number as a whole
  (\<open>Number\<close> reads the same value), and no field longer than two code units is a zero.
\<close>

definition last_text :: "jstring list \<Rightarrow> jstring" where
  "last_text cols =
     (case find (\<lambda>col. col_number col = NaN \<and> 2 < length col) (rev cols) of
        None \<Rightarrow> [] | Some col \<Rightarrow> col)"

definition plain_field :: "jstring \<Rightarrow> bool" where
  "plain_field col =
     ((col_number col = NaN
       \<or> to_number (filter (\<lambda>c. c \<noteq> 8358 \<and> c \<noteq> 44) col) = col_number col)
      \<and> \<not> (col_number col = Fin 0 \<and> 2 < length col))"

text \<open>
  The data rows of a CSV text: its non-blank lines, without the first when that one
  contains \<open>date\<close> or \<open>amount\<close>. The base amount of a row is its amount when the row has at
  least two fields and the amount is greater than 0.
\<close>

definition data_rows :: "jstring \<Rightarrow> jstring list" where
  "data_rows text =
     (case filter (\<lambda>line. trim line \<noteq> []) (split_on 10 text) of
        [] \<Rightarrow> []
      | first # rest \<Rightarrow>
          if str_includes (lower_ascii first) (str ''date'')
             \<or> str_includes (lower_ascii first) (str ''amount'')
          then rest else first # rest)"

definition base_amount :: "jstring \<Rightarrow> jsnum option" where
  "base_amount line =
     (if 2 \<le> length (csv_cols line) \<and> jgt (first_amount (csv_cols line)) (Fin 0)
      then Some (first_amount (csv_cols line)) else None)"

definition base_amounts :: "jstring \<Rightarrow> jsnum list" where
  "base_amounts text = List.map_filter base_amount (data_rows text)"

text \<open>The ledger after the import handler: as it was when the handler caught an error.\<close>

definition ledger_after :: "csv_error + app \<Rightarrow> app \<Rightarrow> app" where
  "ledger_after res a = (case res of Inl e \<Rightarrow> a | Inr a' \<Rightarrow> a')"

definition ledger_entries :: "app \<Rightarrow> (jstring \<times> jsnum) list" where
  "ledger_entries a = map (\<lambda>tx. (tx_type tx, tx_amount tx)) (transactions a)"

text \<open>
  The matches that survive the range filter, each with its line, in text order; and the
  details the amended claim asks for, given the cleaned text \<open>d\<close>: in the copy of
  \<open>processReceiptWithOCR\<close> with the length test, and in dashboard.js, where the claim is
  silent on a cleaned text of one or two code units.
\<close>

definition surviving :: "jstring \<Rightarrow> (jstring \<times> jstring) list" where
  "surviving text =
     concat (map (\<lambda>line. map (Pair line)
                            (filter (\<lambda>numStr. in_range (rawAmount numStr)) (match_amounts line)))
                 (split_on 10 text))"

definition details_rule_local :: "jstring \<Rightarrow> jstring \<Rightarrow> bool" where
  "details_rule_local d out = (out = (if length d < 3 then str ''Receipt Item'' else d))"

definition details_rule :: "jstring \<Rightarrow> jstring \<Rightarrow> bool" where
  "details_rule d out =
     ((d = [] \<longrightarrow> out = str ''Receipt Item'') \<and> (3 \<le> length d \<longrightarrow> out = d))"

definition valid_input :: "new_transaction \<Rightarrow> bool" where
  "valid_input t = (jge (new_amount t) (Fin 0) \<and> new_type t \<in> tax_types)"

text \<open>
  The shape of the five upper branches of the schedule, and the annual tax as a function
  of the taxable income.
\<close>

definition band :: "rat \<Rightarrow> rat \<Rightarrow> rat \<Rightarrow> jsnum \<Rightarrow> jsnum" where
  "band lo base rate t = jadd (Fin base) (jmul (jsub t (Fin lo)) (lit rate))"

definition rounded_tax :: "jsnum \<Rightarrow> jsnum" where
  "rounded_tax t = math_round (band_tax t)"

text \<open>A relief that is absent, or a finite number of magnitude at most \<open>10^12\<close>.\<close>

definition relief_ok :: "jsnum \<Rightarrow> bool" where
  "relief_ok x = (case x of NaN \<Rightarrow> True | Fin v \<Rightarrow> \<bar>v\<bar> \<le> 10 ^ 12 | _ \<Rightarrow> False)"

text \<open>The type and amount of every transaction in the ledger after an import.\<close>

definition committed :: "csv_error + app \<Rightarrow> (jstring \<times> jsnum) list" where
  "committed res =
     (case res of
        Inl e \<Rightarrow> []
      | Inr a \<Rightarrow> map (\<lambda>tx. (tx_type tx, tx_amount tx)) (transactions a))"

definition pension_only :: "jsnum \<Rightarrow> reliefs" where
  "pension_only p = \<lparr> pension = p, nhf = Fin 0, other = Fin 0 \<rparr>"

definition sample_clock :: clock where
  "sample_clock = \<lparr> fresh_id = str ''lx3k9a0f7'', today = str ''2024-01-01'',
                    now_iso = str ''2024-01-01T09:00:00.000Z'', storage_ok = True \<rparr>"



text \<open>The row of the earlier build for the line \<open>Bread 250\<close>, checked, with an edited amount.\<close>

definition bread_entry :: editable_line where
  "bread_entry = \<lparr> etype = str ''Consumption'', eamount = Fin 250, edetails = str ''Bread'' \<rparr>"

definition bread_row :: "bool \<Rightarrow> jstring \<Rightarrow> legacy_preview" where
  "bread_row checked amountValue =
     \<lparr> lcheck_el = (\<lambda>i x. if i = 0 \<and> x = Fin 250 then Some checked else None),
       lamount_el = (\<lambda>i x. if i = 0 \<and> x = Fin 250 then Some amountValue else None),
       ltype_el = (\<lambda>i x. if i = 0 \<and> x = Fin 250 then Some (str ''Consumption'') else None),
       ldetails_el = (\<lambda>i x. if i = 0 \<and> x = Fin 250 then Some (str ''Bread'') else None) \<rparr>"

definition vat_line :: candidate where
  "vat_line = \<lparr> cid = [], ctype = str ''VAT'', camount = Fin 1500,
                cdetails = str ''Total VAT'' \<rparr>"

definition cola_line :: candidate where
  "cola_line = \<lparr> cid = [], ctype = str ''Consumption'', camount = Fin 1500,
                 cdetails = str ''Coca Cola'' \<rparr>"

definition gift :: new_transaction where
  "gift = \<lparr> new_date = [], new_type = str ''Gift'', new_amount = Fin (- 5), new_details = [] \<rparr>"

definition fuel_vat :: new_transaction where
  "fuel_vat = \<lparr> new_date = [], new_type = str ''VAT'', new_amount = Fin 375,
                new_details = str ''Fuel'' \<rparr>"

section \<open>Properties of the ledger\<close>

lemma saveTransactions_transactions: "transactions (saveTransactions ck a) = transactions a"
  by (simp add: saveTransactions_def)

lemma addTransaction_transactions:
  "transactions (addTransaction ck t a) = transactions a @ [make_transaction ck t]"
  by (simp add: addTransaction_def saveTransactions_transactions)

lemma deleteTransaction_transactions:
  "transactions (deleteTransaction ck i a) = filter (\<lambda>tx. tx_id tx \<noteq> i) (transactions a)"
  by (simp add: deleteTransaction_def saveTransactions_transactions)

lemma count_list_filter:
  "count_list (filter P xs) x = (if P x then count_list xs x else 0)"
  by (induction xs) auto

lemma add_all_transactions:
  "transactions (add_all calls a)
     = transactions a @ map (\<lambda>(ck, t). make_transaction ck t) calls"
  unfolding add_all_def
  by (induction calls arbitrary: a) (auto simp: addTransaction_transactions)

lemma valid_make_transaction: "valid_transaction (make_transaction ck t) = valid_input t"
  by (simp add: valid_transaction_def valid_input_def make_transaction_def)

text \<open>
  C10. \<open>deleteTransaction(id)\<close> removes every stored transaction with that id and nothing
  else: a transaction with the id no longer occurs, any other transaction occurs as often
  as before with its fields as they were, and the remaining ones are in their old order.
\<close>

theorem deleteTransaction_frame:
  "(\<forall>tx. count_list (transactions (deleteTransaction ck i a)) tx
          = (if tx_id tx = i then 0 else count_list (transactions a) tx))
   \<and> subseq (transactions (deleteTransaction ck i a)) (transactions a)"
  by (simp add: deleteTransaction_transactions count_list_filter)

text \<open>
  C9, as stated, fails: \<open>addTransaction\<close> checks neither field, so one call with the type
  \<open>Gift\<close> and the amount -5 leaves a stored transaction that breaks the invariant.
\<close>

theorem addTransaction_invalid_stored:
  "\<not> list_all valid_transaction (transactions (add_all [(sample_clock, gift)] empty_app))"
  by code_simp

text \<open>
  C9, amended. \<open>addTransaction\<close> stores the type and the amount it is given: after any
  sequence of calls on an empty ledger the stored types and amounts are those of the
  calls, in call order, so every stored transaction has an amount \<open>\<ge> 0\<close> and one of the
  three types exactly when every call was given such an amount and type.
\<close>

theorem addTransaction_stores_unchecked:
  "map tx_type (transactions (add_all calls empty_app)) = map (\<lambda>(ck, t). new_type t) calls
   \<and> map tx_amount (transactions (add_all calls empty_app))
       = map (\<lambda>(ck, t). new_amount t) calls
   \<and> list_all valid_transaction (transactions (add_all calls empty_app))
       = list_all (\<lambda>(ck, t). valid_input t) calls"
  by (auto simp: add_all_transactions empty_app_def make_transaction_def list_all_iff
        valid_make_transaction [unfolded make_transaction_def] split: prod.splits)

theorem addTransaction_stores_unchecked_witness:
  "list_all valid_transaction (transactions (add_all [(sample_clock, fuel_vat)] empty_app))"
proof -
  have "valid_input fuel_vat" by code_simp
  then show ?thesis
    using addTransaction_stores_unchecked [of "[(sample_clock, fuel_vat)]"] by simp
qed

section \<open>Properties of the confirm handler\<close>










text \<open>
  The handler of the earlier build has no test of the amount: the same edit there adds a
  transaction of amount 0.
\<close>

lemma confirm_legacy_zero_amount:
  "map lamount (confirm_legacy (str ''2024-01-01'') (bread_row True (str ''0'')) [bread_entry] [])
     = [Fin 0]"
  by code_simp



section \<open>Properties of the CSV import\<close>

lemma jgt_zero_truthy: "jgt x (Fin 0) \<Longrightarrow> truthy x"
  by (cases x) (auto simp: jgt_def truthy_def)

lemma jgt_zero_neq: "jgt x (Fin 0) \<Longrightarrow> x \<noteq> Fin 0"
  by (auto simp: jgt_def)

lemma scan_col_fst:
  "fst (scan_col ad col) =
     (if fst ad = Fin 0 \<and> jgt (col_number col) (Fin 0) then col_number col else fst ad)"
  by (auto simp: scan_col_def Let_def jgt_def)

lemma scan_col_snd: "snd (scan_col ad col) = (if is_details_col col then col else snd ad)"
  using jgt_zero_truthy [of "col_number col"]
  by (auto simp: scan_col_def Let_def is_details_col_def)

lemma scan_amount:
  "fst (foldl scan_col ad cols) = (if fst ad = Fin 0 then first_amount cols else fst ad)"
proof (induction cols arbitrary: ad)
  case Nil
  then show ?case by (simp add: first_amount_def)
next
  case (Cons col cols)
  show ?case
    by (auto simp: Cons.IH scan_col_fst first_amount_def dest: jgt_zero_neq)
qed

lemma find_snoc:
  "find P (xs @ [x])
     = (case find P xs of None \<Rightarrow> (if P x then Some x else None) | Some y \<Rightarrow> Some y)"
  by (induction xs) auto

lemma scan_details:
  "snd (foldl scan_col ad cols) =
     (case find is_details_col (rev cols) of None \<Rightarrow> snd ad | Some col \<Rightarrow> col)"
proof (induction cols arbitrary: ad)
  case Nil
  then show ?case by simp
next
  case (Cons col cols)
  show ?case
    by (auto simp: Cons.IH scan_col_snd find_snoc split: option.splits)
qed

text \<open>
  C5, as stated, fails for the details: of two text fields the code keeps the last one,
  not the first.
\<close>

theorem csv_details_not_first:
  "parse_row (str ''Lagos Office,Fuel purchase,5000.50'')
     = Some (fl 5000.5, str ''Fuel purchase'')
   \<and> csv_details_spec (csv_cols (str ''Lagos Office,Fuel purchase,5000.50''))
     = str ''Lagos Office''"
  by code_simp

lemma details_col_plain:
  "plain_field col \<Longrightarrow> is_details_col col = (col_number col = NaN \<and> 2 < length col)"
  by (auto simp: plain_field_def is_details_col_def truthy_def)

lemma last_text_plain:
  assumes "list_all plain_field cols"
  shows "(case find is_details_col (rev cols) of None \<Rightarrow> [] | Some col \<Rightarrow> col) = last_text cols"
proof -
  have "find is_details_col (rev cols)
          = find (\<lambda>col. col_number col = NaN \<and> 2 < length col) (rev cols)"
    using assms by (intro find_cong) (auto simp: list_all_iff details_col_plain)
  then show ?thesis by (simp add: last_text_def)
qed

text \<open>
  C5, amended. A data row with fewer than two fields is skipped. For a data row with at
  least two fields, where every field that starts with a number is a number as a whole
  (commas and naira signs removed) and no field longer than two code units is a zero: the
  amount is the number of the first field, from the left, that is a number greater than 0,
  and 0 when there is none; the details are the last field that is no number and longer
  than two code units, and empty when there is none.
\<close>

theorem csv_row_amount_and_details:
  "(length (csv_cols line) < 2
      \<longrightarrow> parse_row line = None \<and> import_row calcVAT fileName ck line a = a)
   \<and> (2 \<le> length (csv_cols line) \<and> list_all plain_field (csv_cols line)
      \<longrightarrow> parse_row line = Some (first_amount (csv_cols line), last_text (csv_cols line)))"
proof -
  have "scan_cols cols = (first_amount cols, last_text cols)" if "list_all plain_field cols"
    for cols
    using last_text_plain [OF that]
    by (simp add: scan_cols_def scan_amount scan_details prod_eq_iff split: option.splits)
  then show ?thesis
    by (auto simp: parse_row_def import_row_def Let_def)
qed

theorem csv_row_amount_and_details_witness:
  "parse_row (str ''5000.50'') = None
   \<and> parse_row (str ''Lagos Office,Fuel purchase,5000.50'')
       = Some (Fin 5000.5, str ''Fuel purchase'')"
proof -
  have short: "length (csv_cols (str ''5000.50'')) < 2"
    by code_simp
  have long: "2 \<le> length (csv_cols (str ''Lagos Office,Fuel purchase,5000.50''))"
    by code_simp
  have plain: "list_all plain_field (csv_cols (str ''Lagos Office,Fuel purchase,5000.50''))"
    by code_simp
  have amount: "first_amount (csv_cols (str ''Lagos Office,Fuel purchase,5000.50'')) = Fin 5000.5"
    by code_simp
  have details:
    "last_text (csv_cols (str ''Lagos Office,Fuel purchase,5000.50'')) = str ''Fuel purchase''"
    by code_simp
  show ?thesis
    using csv_row_amount_and_details [of "str ''5000.50''" id "[]" sample_clock empty_app]
          csv_row_amount_and_details
            [of "str ''Lagos Office,Fuel purchase,5000.50''" id "[]" sample_clock empty_app]
          short long plain amount details
    by simp
qed

text \<open>
  The import of a file, row by row: every data row with a base amount adds one VAT
  transaction, with the VAT of that amount, and no other row adds anything.
\<close>

lemma parse_row_amount:
  "parse_row line
     = (if 2 \<le> length (csv_cols line)
        then Some (first_amount (csv_cols line), snd (scan_cols (csv_cols line))) else None)"
  by (simp add: parse_row_def Let_def scan_cols_def scan_amount prod_eq_iff)

lemma import_row_entries:
  "ledger_entries (import_row calcVAT fileName ck line a)
     = ledger_entries a
       @ (case base_amount line of None \<Rightarrow> [] | Some x \<Rightarrow> [(str ''VAT'', calcVAT x)])"
  by (simp add: import_row_def parse_row_amount base_amount_def ledger_entries_def
        addTransaction_transactions make_transaction_def)

lemma import_rows_entries:
  "ledger_entries (import_rows calcVAT fileName cks i ls a)
     = ledger_entries a
       @ map (\<lambda>x. (str ''VAT'', calcVAT x)) (List.map_filter base_amount ls)"
proof (induction ls arbitrary: i a)
  case Nil
  then show ?case by (simp add: map_filter_simps)
next
  case (Cons line ls)
  show ?case
    by (simp add: Cons.IH import_row_entries map_filter_simps split: option.splits)
qed

lemma processCSV_entries:
  "ledger_entries (ledger_after (processCSV calcVAT fileName cks text a) a)
     = ledger_entries a @ map (\<lambda>x. (str ''VAT'', calcVAT x)) (base_amounts text)"
  by (simp add: processCSV_def ledger_after_def base_amounts_def data_rows_def
        import_rows_entries map_filter_simps Let_def split: list.splits)


section \<open>Properties of the receipt extraction\<close>

lemma extract_with_elem:
  assumes "c \<in> set (extract_with det ids text)"
  shows "\<exists>line \<in> set (split_on 10 text). \<exists>numStr \<in> set (match_amounts line).
           in_range (rawAmount numStr) \<and> ctype c = classify line
           \<and> camount c = rawAmount numStr \<and> cdetails c = det line numStr"
proof -
  let ?rows = "concat (map (line_candidates det) (split_on 10 text))"
  from assms obtain k t a d where kc: "(k, (t, a, d)) \<in> set (enumerate 0 ?rows)"
    and c: "c = \<lparr> cid = ids k, ctype = t, camount = a, cdetails = d \<rparr>"
    by (auto simp: extract_with_def)
  from kc have "k < length ?rows" and "?rows ! k = (t, a, d)"
    by (simp_all add: in_set_enumerate_eq)
  then have "(t, a, d) \<in> set ?rows"
    by (metis nth_mem)
  then obtain line where line: "line \<in> set (split_on 10 text)"
    and "(t, a, d) \<in> set (line_candidates det line)"
    by auto
  then obtain numStr where "numStr \<in> set (match_amounts line)" "in_range (rawAmount numStr)"
    "t = classify line" "a = rawAmount numStr" "d = det line numStr"
    by (auto simp: line_candidates_def)
  with line c show ?thesis by auto
qed

lemma in_range_bounds:
  "in_range a \<Longrightarrow> \<not> jlt a (Fin 100) \<and> \<not> jgt a (Fin 10000000)"
  by (auto simp: in_range_def jge_def jle_def jgt_def)

text \<open>
  C3, as stated, fails on the earlier build: \<open>processReceiptEditable\<close> keeps every matched
  amount greater than 0, so the text \<open>Tax 50\<close> gives a line with the amount 50.
\<close>

theorem editable_keeps_small_amounts:
  "map eamount (processReceiptEditable (str ''Tax 50'')) = [Fin 50] \<and> jlt (Fin 50) (Fin 100)"
  by code_simp

text \<open>
  C3, amended. For every recognised text, every candidate line that
  \<open>processReceiptWithOCR\<close> produces, in either copy of the function, has an amount of at
  least 100 and at most 10,000,000.
\<close>

theorem extraction_amounts_in_range:
  assumes "c \<in> set (processReceiptWithOCR ids text)
               \<union> set (processReceiptWithOCR_local ids text)"
  shows "jge (camount c) (Fin 100) \<and> jle (camount c) (Fin 10000000)
         \<and> \<not> jlt (camount c) (Fin 100) \<and> \<not> jgt (camount c) (Fin 10000000)"
proof -
  from assms obtain det where "c \<in> set (extract_with det ids text)"
    by (auto simp: processReceiptWithOCR_def processReceiptWithOCR_local_def)
  then have "in_range (camount c)"
    by (auto dest: extract_with_elem)
  then show ?thesis
    using in_range_bounds [of "camount c"] by (simp add: in_range_def)
qed

theorem extraction_amounts_in_range_witness:
  "processReceiptWithOCR (\<lambda>k. []) (str ''Total VAT: 1,500.00'') = [vat_line]
   \<and> jge (camount vat_line) (Fin 100) \<and> jle (camount vat_line) (Fin 10000000)"
proof -
  have run: "processReceiptWithOCR (\<lambda>k. []) (str ''Total VAT: 1,500.00'') = [vat_line]"
    by code_simp
  then have "vat_line \<in> set (processReceiptWithOCR (\<lambda>k. []) (str ''Total VAT: 1,500.00''))
               \<union> set (processReceiptWithOCR_local (\<lambda>k. []) (str ''Total VAT: 1,500.00''))"
    by simp
  from extraction_amounts_in_range [OF this] run show ?thesis by simp
qed

text \<open>
  C8, as stated, fails: a character that is neither a word character nor white space is
  replaced by a space, not deleted, so \<open>Coca-Cola 1500\<close> gives the details \<open>Coca Cola\<close>
  in both copies of the function, where deleting gives \<open>CocaCola\<close>.
\<close>

theorem details_keep_word_gaps:
  "processReceiptWithOCR (\<lambda>k. []) (str ''Coca-Cola 1500'') = [cola_line]
   \<and> processReceiptWithOCR_local (\<lambda>k. []) (str ''Coca-Cola 1500'') = [cola_line]
   \<and> match_amounts (str ''Coca-Cola 1500'') = [str ''1500'']
   \<and> details_spec (str ''Coca-Cola 1500'') (str ''1500'') = str ''CocaCola''"
  by code_simp

text \<open>
  The two copies of \<open>processReceiptWithOCR\<close> differ on a cleaned text of one or two
  characters: dashboard.js keeps it, the other copy puts the placeholder.
\<close>

lemma short_details_differ:
  "map cdetails (processReceiptWithOCR (\<lambda>k. []) (str ''ab 1500'')) = [str ''ab'']
   \<and> map cdetails (processReceiptWithOCR_local (\<lambda>k. []) (str ''ab 1500''))
       = [str ''Receipt Item'']"
  by code_simp

lemma list_all2_maps:
  assumes "map f xs = map g ys" and "\<And>x y. f x = g y \<Longrightarrow> P x y"
  shows "list_all2 P xs ys"
  using assms(1)
proof (induction xs arbitrary: ys)
  case Nil
  then show ?case by simp
next
  case (Cons x xs)
  then obtain y ys' where "ys = y # ys'" "f x = g y" "map f xs = map g ys'"
    by (cases ys) auto
  with Cons.IH assms(2) show ?case by simp
qed

lemma line_candidates_surviving:
  "concat (map (line_candidates det) ls)
     = map (\<lambda>(line, numStr). (classify line, rawAmount numStr, det line numStr))
         (concat (map (\<lambda>line. map (Pair line)
                    (filter (\<lambda>numStr. in_range (rawAmount numStr)) (match_amounts line))) ls))"
  by (induction ls) (simp_all add: line_candidates_def comp_def)

lemma extract_with_surviving:
  "map (\<lambda>c. (ctype c, camount c, cdetails c)) (extract_with det ids text)
     = map (\<lambda>(line, numStr). (classify line, rawAmount numStr, det line numStr))
         (surviving text)"
proof -
  have "map (\<lambda>c. (ctype c, camount c, cdetails c)) (extract_with det ids text)
          = map snd (enumerate 0 (concat (map (line_candidates det) (split_on 10 text))))"
    by (simp add: extract_with_def comp_def case_prod_unfold)
  then show ?thesis
    by (simp add: line_candidates_surviving surviving_def)
qed

text \<open>
  C8, amended. The candidate list has one candidate for every line of the text and every
  match of the pattern on it whose amount passed the range filter, in text order, with
  that amount. Let \<open>d\<close> be the line with the first occurrence of the matched text removed,
  every code unit other than an ASCII letter, a digit, an underscore or white space
  replaced by a space, every run of white space collapsed to one space, trimmed and cut to
  50 code units. In the copy of the function with the length test the details are
  \<open>Receipt Item\<close> when \<open>d\<close> has fewer than three code units and \<open>d\<close> otherwise. In
  dashboard.js the details are \<open>Receipt Item\<close> when \<open>d\<close> is empty, and \<open>d\<close> when \<open>d\<close> has
  three or more code units.
\<close>

theorem candidate_details:
  "list_all2 (\<lambda>c (line, numStr).
        ctype c = classify line \<and> camount c = rawAmount numStr
        \<and> details_rule_local (clean_details line numStr) (cdetails c))
     (processReceiptWithOCR_local ids text) (surviving text)
   \<and> list_all2 (\<lambda>c (line, numStr).
        ctype c = classify line \<and> camount c = rawAmount numStr
        \<and> details_rule (clean_details line numStr) (cdetails c))
     (processReceiptWithOCR ids text) (surviving text)"
proof
  show "list_all2 (\<lambda>c (line, numStr).
        ctype c = classify line \<and> camount c = rawAmount numStr
        \<and> details_rule_local (clean_details line numStr) (cdetails c))
     (processReceiptWithOCR_local ids text) (surviving text)"
    unfolding processReceiptWithOCR_local_def
    by (rule list_all2_maps [OF extract_with_surviving])
       (auto simp: details_of_local_def details_rule_local_def Let_def)
  show "list_all2 (\<lambda>c (line, numStr).
        ctype c = classify line \<and> camount c = rawAmount numStr
        \<and> details_rule (clean_details line numStr) (cdetails c))
     (processReceiptWithOCR ids text) (surviving text)"
    unfolding processReceiptWithOCR_def
    by (rule list_all2_maps [OF extract_with_surviving])
       (auto simp: details_of_def details_rule_def Let_def)
qed

theorem candidate_details_witness:
  "surviving (str ''Coca-Cola 1500'') = [(str ''Coca-Cola 1500'', str ''1500'')]
   \<and> clean_details (str ''Coca-Cola 1500'') (str ''1500'') = str ''Coca Cola''
   \<and> map cdetails (processReceiptWithOCR (\<lambda>k. []) (str ''Coca-Cola 1500'')) = [str ''Coca Cola'']
   \<and> map cdetails (processReceiptWithOCR_local (\<lambda>k. []) (str ''Coca-Cola 1500''))
       = [str ''Coca Cola'']"
proof -
  have matches: "surviving (str ''Coca-Cola 1500'') = [(str ''Coca-Cola 1500'', str ''1500'')]"
    by code_simp
  have cleaned: "clean_details (str ''Coca-Cola 1500'') (str ''1500'') = str ''Coca Cola''"
    by code_simp
  have long: "length (str ''Coca Cola'') = 9"
    by code_simp
  show ?thesis
    using candidate_details [of "\<lambda>k. []" "str ''Coca-Cola 1500''"] long
    by (auto simp: matches cleaned list_all2_Cons2 details_rule_def details_rule_local_def)
qed

section \<open>Properties of binary64 rounding\<close>

lemma pow2_powi: "pow2 e = 2 powi e"
  by (simp add: pow2_def power_int_def inverse_eq_divide power_one_over)

lemma pow2_pos: "0 < pow2 e"
  by (simp add: pow2_powi)

lemma pow2_add: "pow2 (a + b) = pow2 a * pow2 b"
  by (simp add: pow2_powi power_int_add)

lemma pow2_mono: "a \<le> b \<Longrightarrow> pow2 a \<le> pow2 b"
  by (simp add: pow2_powi power_int_increasing)

lemma pow2_less_iff: "pow2 a < pow2 b \<longleftrightarrow> a < b"
  by (metis pow2_powi power_int_strict_increasing pow2_mono linorder_not_less one_less_numeral_iff semiring_norm(76))

lemma pow2_nat: "pow2 (int n) = 2 ^ n"
  by (simp add: pow2_def)

lemma pow2_numeral: "pow2 (numeral n) = 2 ^ numeral n"
  by (simp add: pow2_powi)

lemma pow2_diff: "pow2 (a - b) = pow2 a / pow2 b"
  by (simp add: pow2_powi power_int_diff)

lemma ilog2_bounds:
  assumes "0 < x"
  shows "pow2 (ilog2 x) \<le> x \<and> x < pow2 (ilog2 x + 1)"
proof -
  obtain p q where pq: "quotient_of x = (p, q)" by (cases "quotient_of x")
  then have q: "0 < q" and x: "x = of_int p / of_int q"
    by (auto simp: quotient_of_denom_pos quotient_of_div)
  with assms have p: "0 < p"
    by (simp add: zero_less_divide_iff)
  let ?e = "bitlen p - bitlen q"
  have bp: "2 ^ nat (bitlen p - 1) \<le> p" "p < 2 ^ nat (bitlen p)"
    using bitlen_bounds [OF p] by auto
  have bq: "2 ^ nat (bitlen q - 1) \<le> q" "q < 2 ^ nat (bitlen q)"
    using bitlen_bounds [OF q] by auto
  have lp: "1 \<le> bitlen p" and lq: "1 \<le> bitlen q"
    using p q bitlen_eq_zero_iff [of p] bitlen_eq_zero_iff [of q]
      bitlen_nonneg [of p] bitlen_nonneg [of q] by linarith+
  have P1: "pow2 (bitlen p - 1) \<le> of_int p"
  proof -
    have "(of_int (2 ^ nat (bitlen p - 1)) :: rat) \<le> of_int p"
      using bp(1) by (simp only: of_int_le_iff)
    then show ?thesis using lp by (simp add: pow2_def)
  qed
  have P2: "of_int p < pow2 (bitlen p)"
  proof -
    have "(of_int p :: rat) < of_int (2 ^ nat (bitlen p))"
      using bp(2) by (simp only: of_int_less_iff)
    then show ?thesis using lp by (simp add: pow2_def)
  qed
  have Q1: "pow2 (bitlen q - 1) \<le> of_int q"
  proof -
    have "(of_int (2 ^ nat (bitlen q - 1)) :: rat) \<le> of_int q"
      using bq(1) by (simp only: of_int_le_iff)
    then show ?thesis using lq by (simp add: pow2_def)
  qed
  have Q2: "of_int q < pow2 (bitlen q)"
  proof -
    have "(of_int q :: rat) < of_int (2 ^ nat (bitlen q))"
      using bq(2) by (simp only: of_int_less_iff)
    then show ?thesis using lq by (simp add: pow2_def)
  qed
  have qpos: "(0::rat) < of_int q" using q by simp
  have lower: "pow2 (?e - 1) \<le> x"
  proof -
    have "pow2 (?e - 1) * of_int q \<le> pow2 (?e - 1) * pow2 (bitlen q)"
      using Q2 pow2_pos [of "?e - 1"] by (simp add: less_imp_le)
    also have "\<dots> = pow2 (bitlen p - 1)"
      by (simp add: pow2_add [symmetric])
    also have "\<dots> \<le> of_int p" by (rule P1)
    finally show ?thesis using qpos by (simp add: x pos_le_divide_eq)
  qed
  have upper: "x < pow2 (?e + 1)"
  proof -
    have "of_int p < pow2 (bitlen p)" by (rule P2)
    also have "\<dots> = pow2 (?e + 1) * pow2 (bitlen q - 1)"
      by (simp add: pow2_add [symmetric])
    also have "\<dots> \<le> pow2 (?e + 1) * of_int q"
      using Q1 pow2_pos [of "?e + 1"] by simp
    finally show ?thesis using qpos by (simp add: x pos_divide_less_eq)
  qed
  show ?thesis
  proof (cases "pow2 ?e \<le> x")
    case True
    then show ?thesis using upper by (simp add: ilog2_def pq Let_def)
  next
    case False
    then show ?thesis using lower by (simp add: ilog2_def pq Let_def)
  qed
qed

lemma ilog2_le: "0 < x \<Longrightarrow> x < pow2 (k + 1) \<Longrightarrow> ilog2 x \<le> k"
proof -
  assume "0 < x" "x < pow2 (k + 1)"
  then have "pow2 (ilog2 x) < pow2 (k + 1)"
    using ilog2_bounds [of x] by linarith
  then show ?thesis by (simp add: pow2_less_iff)
qed

lemma ilog2_ge: "0 < x \<Longrightarrow> pow2 k \<le> x \<Longrightarrow> k \<le> ilog2 x"
proof -
  assume "0 < x" "pow2 k \<le> x"
  then have "pow2 k < pow2 (ilog2 x + 1)"
    using ilog2_bounds [of x] by linarith
  then show ?thesis by (simp add: pow2_less_iff)
qed

lemma ilog2_mono: "0 < x \<Longrightarrow> x \<le> y \<Longrightarrow> ilog2 x \<le> ilog2 y"
  using ilog2_bounds [of x] ilog2_ge [of y "ilog2 x"] by linarith


lemma rne_cases: "rne y = \<lfloor>y\<rfloor> \<or> rne y = \<lfloor>y\<rfloor> + 1"
  by (simp add: rne_def Let_def)

lemma rne_error: "\<bar>of_int (rne y) - y\<bar> \<le> 1 / 2"
proof -
  have "of_int \<lfloor>y\<rfloor> \<le> y" "y < of_int \<lfloor>y\<rfloor> + 1" by linarith+
  then show ?thesis
    by (auto simp: rne_def Let_def abs_le_iff)
qed

lemma rne_of_int: "rne (of_int n) = n"
  by (simp add: rne_def Let_def)

lemma rne_mono:
  assumes "y \<le> z"
  shows "rne y \<le> rne z"
proof (cases "\<lfloor>y\<rfloor> = \<lfloor>z\<rfloor>")
  case True
  with assms show ?thesis
    by (auto simp: rne_def Let_def)
next
  case False
  with assms have "\<lfloor>y\<rfloor> + 1 \<le> \<lfloor>z\<rfloor>"
    using floor_mono [OF assms] by linarith
  moreover have "rne y \<le> \<lfloor>y\<rfloor> + 1" using rne_cases [of y] by linarith
  moreover have "\<lfloor>z\<rfloor> \<le> rne z" using rne_cases [of z] by linarith
  ultimately show ?thesis by linarith
qed

lemma rne_neg: "rne (- y) = - rne y"
proof (cases "y = of_int \<lfloor>y\<rfloor>")
  case True
  then obtain n where "y = of_int n" by blast
  then have "- y = of_int (- n)" by simp
  with \<open>y = of_int n\<close> show ?thesis by (simp only: rne_of_int)
next
  case False
  then have lt: "of_int \<lfloor>y\<rfloor> < y" by linarith
  have "y < of_int \<lfloor>y\<rfloor> + 1" by linarith
  with lt have fl: "\<lfloor>- y\<rfloor> = - \<lfloor>y\<rfloor> - 1"
    by (intro floor_unique) auto
  show ?thesis
    using lt by (auto simp: rne_def Let_def fl)
qed

lemma ulp_pos: "0 < ulp x"
  by (simp add: ulp_def pow2_pos)

lemma ulp_neg: "ulp (- x) = ulp x"
  by (simp add: ulp_def)

lemma nearest_zero: "nearest 0 = 0"
  by (simp add: nearest_def rne_def)

lemma nearest_neg: "nearest (- x) = - nearest x"
  by (simp add: nearest_def ulp_neg rne_neg)

lemma nearest_error: "\<bar>nearest x - x\<bar> \<le> ulp x / 2"
proof -
  let ?n = "rne (x / ulp x)"
  have upos: "0 < ulp x" by (rule ulp_pos)
  have "(of_int ?n - x / ulp x) * ulp x = nearest x - x"
    using upos by (simp add: nearest_def left_diff_distrib)
  then have "\<bar>nearest x - x\<bar> = \<bar>of_int ?n - x / ulp x\<bar> * \<bar>ulp x\<bar>"
    by (simp only: abs_mult [symmetric])
  also have "\<dots> = \<bar>of_int ?n - x / ulp x\<bar> * ulp x"
    using upos by simp
  also have "\<dots> \<le> 1 / 2 * ulp x"
    using rne_error [of "x / ulp x"] upos by (simp only: mult_right_mono less_imp_le)
  finally show ?thesis by simp
qed

lemma nearest_nonneg: "0 \<le> x \<Longrightarrow> 0 \<le> nearest x"
proof -
  assume "0 \<le> x"
  then have "0 \<le> x / ulp x" using ulp_pos [of x] by simp
  then have "rne 0 \<le> rne (x / ulp x)" by (rule rne_mono)
  then have "0 \<le> rne (x / ulp x)" by (simp add: rne_def)
  then show ?thesis using ulp_pos [of x] by (simp add: nearest_def)
qed

lemma ulp_eq: "0 < x \<Longrightarrow> ulp x = pow2 (max (ilog2 x) (- 1022) - 52)"
  by (simp add: ulp_def)

lemma nearest_upper:
  assumes "0 < x"
  shows "nearest x \<le> pow2 (max (ilog2 x) (- 1022) + 1)"
proof -
  let ?E = "max (ilog2 x) (- 1022)"
  have u: "ulp x = pow2 (?E - 52)" using assms by (rule ulp_eq)
  have "x < pow2 (ilog2 x + 1)" using ilog2_bounds [OF assms] by simp
  also have "\<dots> \<le> pow2 (?E + 1)" by (rule pow2_mono) simp
  finally have "x / ulp x < pow2 (?E + 1) / ulp x"
    using ulp_pos [of x] by (simp add: divide_strict_right_mono)
  also have "pow2 (?E + 1) / ulp x = pow2 53"
    by (simp add: u pow2_diff [symmetric])
  finally have "x / ulp x \<le> of_int (2 ^ 53)"
    by (simp add: pow2_numeral)
  then have "rne (x / ulp x) \<le> rne (of_int (2 ^ 53))" by (rule rne_mono)
  then have "rne (x / ulp x) \<le> 2 ^ 53" by (simp only: rne_of_int)
  then have "(of_int (rne (x / ulp x)) :: rat) \<le> of_int (2 ^ 53)"
    by (simp only: of_int_le_iff)
  then have "nearest x \<le> of_int (2 ^ 53) * ulp x"
    unfolding nearest_def using ulp_pos [of x] by (simp only: mult_right_mono less_imp_le)
  also have "of_int (2 ^ 53) * ulp x = pow2 53 * pow2 (?E - 52)"
    by (simp add: u pow2_numeral)
  also have "\<dots> = pow2 (?E + 1)"
    by (simp add: pow2_add [symmetric] add.commute)
  finally show ?thesis .
qed

lemma nearest_lower:
  assumes "0 < x" and "- 1022 \<le> k" and "pow2 k \<le> x"
  shows "pow2 k \<le> nearest x"
proof -
  let ?E = "max (ilog2 x) (- 1022)"
  have u: "ulp x = pow2 (?E - 52)" using assms(1) by (rule ulp_eq)
  have kl: "k \<le> ilog2 x" using assms(1) assms(3) by (rule ilog2_ge)
  with assms(2) have E: "?E = ilog2 x" by simp
  have "pow2 ?E \<le> x" using ilog2_bounds [OF assms(1)] E by simp
  then have "pow2 ?E / ulp x \<le> x / ulp x"
    using ulp_pos [of x] by (simp add: divide_right_mono)
  moreover have "pow2 ?E / ulp x = pow2 52"
    by (simp add: u pow2_diff [symmetric])
  ultimately have "of_int (2 ^ 52) \<le> x / ulp x"
    by (simp add: pow2_numeral)
  then have "rne (of_int (2 ^ 52)) \<le> rne (x / ulp x)" by (rule rne_mono)
  then have "2 ^ 52 \<le> rne (x / ulp x)" by (simp only: rne_of_int)
  then have "(of_int (2 ^ 52) :: rat) \<le> of_int (rne (x / ulp x))"
    by (simp only: of_int_le_iff)
  then have "of_int (2 ^ 52) * ulp x \<le> nearest x"
    unfolding nearest_def using ulp_pos [of x] by (simp only: mult_right_mono less_imp_le)
  moreover have "of_int (2 ^ 52) * ulp x = pow2 52 * pow2 (?E - 52)"
    by (simp add: u pow2_numeral)
  moreover have "pow2 52 * pow2 (?E - 52) = pow2 ?E"
    by (simp add: pow2_add [symmetric])
  ultimately have "pow2 ?E \<le> nearest x" by simp
  moreover have "pow2 k \<le> pow2 ?E" using kl E by (simp add: pow2_mono)
  ultimately show ?thesis by linarith
qed

lemma nearest_mono_pos:
  assumes "0 < x" and "x \<le> y"
  shows "nearest x \<le> nearest y"
proof -
  let ?Ex = "max (ilog2 x) (- 1022)" and ?Ey = "max (ilog2 y) (- 1022)"
  from assms have y: "0 < y" by simp
  have le: "?Ex \<le> ?Ey" using ilog2_mono [OF assms] by simp
  show ?thesis
  proof (cases "?Ex = ?Ey")
    case True
    then have u: "ulp y = ulp x" using assms y by (simp add: ulp_eq)
    have "x / ulp x \<le> y / ulp x"
      using assms(2) ulp_pos [of x] by (simp add: divide_right_mono)
    then have "rne (x / ulp x) \<le> rne (y / ulp x)" by (rule rne_mono)
    then have "(of_int (rne (x / ulp x)) :: rat) \<le> of_int (rne (y / ulp x))"
      by (simp only: of_int_le_iff)
    then show ?thesis
      unfolding nearest_def u using ulp_pos [of x] by (simp only: mult_right_mono less_imp_le)
  next
    case False
    with le have lt: "?Ex + 1 \<le> ?Ey" by simp
    then have "- 1022 < ?Ey" by simp
    then have Ey: "?Ey = ilog2 y" by simp
    have "nearest x \<le> pow2 (?Ex + 1)" using assms(1) by (rule nearest_upper)
    also have "\<dots> \<le> pow2 ?Ey" using lt by (rule pow2_mono)
    also have "\<dots> \<le> nearest y"
    proof (rule nearest_lower [OF y])
      show "- 1022 \<le> ?Ey" by simp
      show "pow2 ?Ey \<le> y" using ilog2_bounds [OF y] Ey by simp
    qed
    finally show ?thesis .
  qed
qed

lemma nearest_mono:
  assumes "x \<le> y"
  shows "nearest x \<le> nearest y"
proof -
  consider "0 < x" | "x \<le> 0" "0 \<le> y" | "y < 0" by linarith
  then show ?thesis
  proof cases
    case 1
    then show ?thesis using assms by (rule nearest_mono_pos)
  next
    case 2
    have "nearest x \<le> 0"
      using nearest_nonneg [of "- x"] 2(1) by (simp add: nearest_neg)
    also have "0 \<le> nearest y" using 2(2) by (rule nearest_nonneg)
    finally show ?thesis .
  next
    case 3
    then have "nearest (- y) \<le> nearest (- x)"
      using assms by (intro nearest_mono_pos) auto
    then show ?thesis by (simp add: nearest_neg)
  qed
qed


lemma ilog2_pow2: "ilog2 (pow2 k) = k"
proof -
  have "ilog2 (pow2 k) \<le> k"
    by (rule ilog2_le [OF pow2_pos]) (simp add: pow2_less_iff)
  moreover have "k \<le> ilog2 (pow2 k)"
    by (rule ilog2_ge [OF pow2_pos]) simp
  ultimately show ?thesis by simp
qed

lemma nearest_pow2:
  assumes "- 1022 \<le> k"
  shows "nearest (pow2 k) = pow2 k"
proof -
  have u: "ulp (pow2 k) = pow2 (k - 52)"
    using assms by (simp add: ulp_eq [OF pow2_pos] ilog2_pow2)
  have "pow2 k / ulp (pow2 k) = pow2 52"
    by (simp add: u pow2_diff [symmetric])
  then have "pow2 k / ulp (pow2 k) = of_int (2 ^ 52)"
    by (simp add: pow2_numeral)
  then have "rne (pow2 k / ulp (pow2 k)) = 2 ^ 52"
    by (simp only: rne_of_int)
  then have "nearest (pow2 k) = of_int (2 ^ 52) * pow2 (k - 52)"
    by (simp add: nearest_def u)
  also have "\<dots> = pow2 52 * pow2 (k - 52)"
    by (simp add: pow2_numeral)
  also have "\<dots> = pow2 k"
    by (simp add: pow2_add [symmetric])
  finally show ?thesis .
qed

lemma nearest_abs_le:
  assumes "\<bar>x\<bar> \<le> pow2 k" and "- 1022 \<le> k"
  shows "\<bar>nearest x\<bar> \<le> pow2 k"
proof -
  from assms(1) have "x \<le> pow2 k" and "- pow2 k \<le> x" by (simp_all add: abs_le_iff)
  then have "nearest x \<le> nearest (pow2 k)" and "nearest (- pow2 k) \<le> nearest x"
    by (simp_all add: nearest_mono)
  then show ?thesis
    using nearest_pow2 [OF assms(2)] by (simp add: nearest_neg abs_le_iff)
qed

lemma nearest_error_le:
  assumes "\<bar>x\<bar> \<le> pow2 k" and "- 1022 \<le> k"
  shows "\<bar>nearest x - x\<bar> \<le> pow2 (k - 53)"
proof (cases "x = 0")
  case True
  then show ?thesis by (simp add: nearest_zero less_imp_le [OF pow2_pos])
next
  case False
  then have pos: "0 < \<bar>x\<bar>" by simp
  have "\<bar>x\<bar> < pow2 (k + 1)"
    using assms(1) pow2_less_iff [of k "k + 1"] by simp
  then have "ilog2 \<bar>x\<bar> \<le> k" using pos by (simp add: ilog2_le)
  with assms(2) have "max (ilog2 \<bar>x\<bar>) (- 1022) - 52 \<le> k - 52" by simp
  then have "ulp x \<le> pow2 (k - 52)"
    unfolding ulp_def by (rule pow2_mono)
  moreover have "pow2 (k - 52) = 2 * pow2 (k - 53)"
    using pow2_add [of 1 "k - 53"] by (simp add: pow2_def)
  ultimately have "ulp x / 2 \<le> pow2 (k - 53)" by simp
  with nearest_error [of x] show ?thesis by linarith
qed

lemma ilog2_zero: "ilog2 0 = - 2"
  by code_simp

lemma overflow_iff:
  assumes "0 \<le> r"
  shows "1024 \<le> ilog2 r \<longleftrightarrow> pow2 1024 \<le> r"
proof (cases "r = 0")
  case True
  then show ?thesis using pow2_pos [of 1024] by (simp add: ilog2_zero)
next
  case False
  with assms have pos: "0 < r" by simp
  show ?thesis
  proof
    assume "1024 \<le> ilog2 r"
    then have "pow2 1024 \<le> pow2 (ilog2 r)" by (rule pow2_mono)
    with ilog2_bounds [OF pos] show "pow2 1024 \<le> r" by linarith
  next
    assume "pow2 1024 \<le> r"
    with pos show "1024 \<le> ilog2 r" by (rule ilog2_ge)
  qed
qed

lemma fl_alt:
  "fl x = (if pow2 1024 \<le> nearest x then PInf
           else if nearest x \<le> - pow2 1024 then NInf
           else Fin (nearest x))"
proof -
  consider "x = 0" | "0 < x" | "x < 0" by linarith
  then show ?thesis
  proof cases
    case 1
    then show ?thesis
      using pow2_pos [of 1024] by (simp add: fl_def nearest_zero)
  next
    case 2
    then have nn: "0 \<le> nearest x" by (simp add: nearest_nonneg)
    then have "\<bar>nearest x\<bar> = nearest x" by simp
    with overflow_iff [OF nn] 2 nn pow2_pos [of 1024] show ?thesis
      by (auto simp: fl_def)
  next
    case 3
    then have "0 \<le> nearest (- x)" by (simp add: nearest_nonneg)
    then have np: "nearest x \<le> 0" by (simp add: nearest_neg)
    then have a: "\<bar>nearest x\<bar> = - nearest x" by simp
    from np have "0 \<le> - nearest x" by simp
    from overflow_iff [OF this] 3 np pow2_pos [of 1024] a show ?thesis
      by (auto simp: fl_def)
  qed
qed

lemma fl_not_NaN: "fl x \<noteq> NaN"
  by (simp add: fl_alt)

lemma fl_finite:
  assumes "\<bar>x\<bar> \<le> pow2 k" and "- 1022 \<le> k" and "k \<le> 1023"
  shows "fl x = Fin (nearest x)"
proof -
  have "\<bar>nearest x\<bar> \<le> pow2 k" using assms(1,2) by (rule nearest_abs_le)
  moreover have "pow2 k < pow2 1024" using assms(3) by (simp add: pow2_less_iff)
  ultimately have "nearest x < pow2 1024" and "- pow2 1024 < nearest x"
    by (simp_all add: abs_le_iff)
  then show ?thesis by (simp add: fl_alt)
qed

subsection \<open>The order of the numbers\<close>

lemma jle_simps:
  "jle (Fin x) (Fin y) = (x \<le> y)"
  "jle NaN b = False" "jle a NaN = False"
  "jle NInf b = (b \<noteq> NaN)" "jle a PInf = (a \<noteq> NaN)"
  "jle PInf (Fin y) = False" "jle (Fin x) NInf = False" "jle PInf NInf = False"
  by (cases a; cases b; auto simp: jle_def)+

lemma jle_refl: "a \<noteq> NaN \<Longrightarrow> jle a a"
  by (cases a) (auto simp: jle_simps)

lemma jle_trans: "jle a b \<Longrightarrow> jle b c \<Longrightarrow> jle a c"
  by (cases a; cases b; cases c) (auto simp: jle_simps)

lemma jle_not_NaN: "jle a b \<Longrightarrow> a \<noteq> NaN \<and> b \<noteq> NaN"
  by (auto simp: jle_def)

lemma fl_mono: "x \<le> y \<Longrightarrow> jle (fl x) (fl y)"
  using nearest_mono [of x y] pow2_pos [of 1024]
  by (auto simp: fl_alt jle_simps)

lemma math_round_mono: "jle a b \<Longrightarrow> jle (math_round a) (math_round b)"
  by (cases a; cases b) (auto simp: math_round_def jle_simps intro: floor_mono)

lemma jadd_mono: "jle a b \<Longrightarrow> jle (jadd (Fin k) a) (jadd (Fin k) b)"
  by (cases a; cases b) (auto simp: jle_simps fl_not_NaN intro: fl_mono)

lemma jsub_mono: "jle a b \<Longrightarrow> jle (jsub a (Fin k)) (jsub b (Fin k))"
  by (cases a; cases b) (auto simp: jsub_def jneg_def jle_simps fl_not_NaN intro: fl_mono)

lemma jmul_mono: "0 < c \<Longrightarrow> jle a b \<Longrightarrow> jle (jmul a (Fin c)) (jmul b (Fin c))"
  by (cases a; cases b)
     (auto simp: jle_simps fl_not_NaN jsign_def Let_def intro: fl_mono mult_right_mono)

subsection \<open>Checking a rounding\<close>

text \<open>
  A binary64 result is checked, not searched for: given the binade \<open>e\<close> of \<open>x\<close> and the grid
  index \<open>n\<close>, \<open>fl x\<close> is \<open>n * 2^(e - 52)\<close> as soon as that value is within half a grid step of
  \<open>x\<close>, with \<open>n\<close> even at a tie.
\<close>

lemma rne_eqI:
  assumes "2 * \<bar>y - of_int n\<bar> < 1 \<or> (2 * \<bar>y - of_int n\<bar> = 1 \<and> even n)"
  shows "rne y = n"
proof -
  consider "of_int n \<le> y" "y < of_int n + 1 / 2" | "y < of_int n" "of_int n - 1 / 2 < y"
    | "y = of_int n + 1 / 2" "even n" | "y = of_int n - 1 / 2" "even n"
    using assms by (auto simp: abs_if split: if_splits) 
  then show ?thesis
  proof cases
    case 1
    then have "\<lfloor>y\<rfloor> = n" by (intro floor_unique) auto
    with 1 show ?thesis by (simp add: rne_def Let_def)
  next
    case 2
    then have "\<lfloor>y\<rfloor> = n - 1" by (intro floor_unique) auto
    with 2 show ?thesis by (simp add: rne_def Let_def)
  next
    case 3
    then have "\<lfloor>y\<rfloor> = n" by (intro floor_unique) auto
    with 3 show ?thesis by (simp add: rne_def Let_def)
  next
    case 4
    then have "\<lfloor>y\<rfloor> = n - 1" by (intro floor_unique) auto
    with 4 show ?thesis by (simp add: rne_def Let_def)
  qed
qed

lemma fl_eqI:
  assumes e: "- 1022 \<le> e" "e \<le> 1022"
    and lo: "pow2 e \<le> \<bar>x\<bar>" and hi: "\<bar>x\<bar> < pow2 (e + 1)"
    and r: "r = of_int n * pow2 (e - 52)"
    and near: "2 * \<bar>x - r\<bar> < pow2 (e - 52) \<or> (2 * \<bar>x - r\<bar> = pow2 (e - 52) \<and> even n)"
  shows "fl x = Fin r"
proof -
  have pos: "0 < \<bar>x\<bar>" using lo pow2_pos [of e] by linarith
  have "ilog2 \<bar>x\<bar> = e"
    using ilog2_le [OF pos hi] ilog2_ge [OF pos lo] by simp
  then have u: "ulp x = pow2 (e - 52)" using e by (simp add: ulp_def)
  let ?u = "pow2 (e - 52)"
  have upos: "0 < ?u" by (rule pow2_pos)
  have "x / ?u - of_int n = (x - r) / ?u"
    using upos by (simp add: r diff_divide_distrib)
  then have "\<bar>x / ?u - of_int n\<bar> = \<bar>x - r\<bar> / ?u"
    using upos by (simp add: abs_divide)
  then have "2 * \<bar>x / ?u - of_int n\<bar> < 1 \<or> (2 * \<bar>x / ?u - of_int n\<bar> = 1 \<and> even n)"
    using near upos by (auto simp: field_simps)
  then have "rne (x / ?u) = n" by (rule rne_eqI)
  then have n: "nearest x = r" by (simp add: nearest_def u r)
  have "\<bar>x\<bar> \<le> pow2 (e + 1)" using hi by simp
  then have "fl x = Fin (nearest x)"
    using e by (intro fl_finite [of x "e + 1"]) auto
  with n show ?thesis by simp
qed


lemma jadd_Fin: "jadd (Fin x) (Fin y) = fl (x + y)"
  by simp

lemma jsub_Fin: "jsub (Fin x) (Fin y) = fl (x - y)"
  by (simp add: jsub_def jneg_def)

lemma jmul_Fin: "jmul (Fin x) (Fin y) = fl (x * y)"
  by simp

lemma jdiv_Fin: "jdiv (Fin x) (Fin (numeral k)) = fl (x / numeral k)"
  by simp

lemma math_round_eqI:
  assumes "r = of_int n" and "of_int n \<le> x + 1 / 2" and "x + 1 / 2 < of_int n + 1"
  shows "math_round (Fin x) = Fin r"
proof -
  have "\<lfloor>x + 1 / 2\<rfloor> = n" using assms(2,3) by (intro floor_unique) auto
  then show ?thesis by (simp add: math_round_def assms(1))
qed

subsection \<open>The roundings of the sample computations\<close>

text \<open>
  Every binary64 operation that the sample evaluations below go through: the decimal
  literals of the source, the ends of the tax bands, \<open>calculatePAYE\<close> at the incomes
  1,000,000 and 250,315 and at two neighbouring incomes just above 400,000, and
  \<open>calculateVAT\<close> at 0, 17, 2024 and 5000.5.
\<close>

lemma lit_1: "lit (7 / 100) = (Fin (1261007895663739 / 18014398509481984))"
  unfolding lit_def
  by (rule fl_eqI [where e = "- 4" and n = "5044031582654956"]) (simp_all add: pow2_def)

lemma lit_2: "lit (11 / 100) = (Fin (7926335344172073 / 72057594037927936))"
  unfolding lit_def
  by (rule fl_eqI [where e = "- 4" and n = "7926335344172073"]) (simp_all add: pow2_def)

lemma lit_3: "lit (3 / 20) = (Fin (5404319552844595 / 36028797018963968))"
  unfolding lit_def
  by (rule fl_eqI [where e = "- 3" and n = "5404319552844595"]) (simp_all add: pow2_def)

lemma lit_4: "lit (19 / 100) = (Fin (3422735716801577 / 18014398509481984))"
  unfolding lit_def
  by (rule fl_eqI [where e = "- 3" and n = "6845471433603154"]) (simp_all add: pow2_def)

lemma lit_5: "lit (21 / 100) = (Fin (7566047373982433 / 36028797018963968))"
  unfolding lit_def
  by (rule fl_eqI [where e = "- 3" and n = "7566047373982433"]) (simp_all add: pow2_def)

lemma lit_6: "lit (6 / 25) = (Fin (1080863910568919 / 4503599627370496))"
  unfolding lit_def
  by (rule fl_eqI [where e = "- 3" and n = "8646911284551352"]) (simp_all add: pow2_def)

lemma lit_7: "lit (1 / 5) = (Fin (3602879701896397 / 18014398509481984))"
  unfolding lit_def
  by (rule fl_eqI [where e = "- 3" and n = "7205759403792794"]) (simp_all add: pow2_def)

lemma lit_8: "lit (3 / 40) = (Fin (5404319552844595 / 72057594037927936))"
  unfolding lit_def
  by (rule fl_eqI [where e = "- 4" and n = "5404319552844595"]) (simp_all add: pow2_def)

lemma mul_1: "jmul (Fin 0) (Fin (1261007895663739 / 18014398509481984)) = (Fin 0)"
  by (simp add: jmul_Fin fl_def)

lemma round_1: "math_round (Fin 0) = (Fin 0)"
  by (rule math_round_eqI [where n = "0"]) simp_all

lemma mul_2: "jmul (Fin 300000) (Fin (1261007895663739 / 18014398509481984)) = (Fin (5772436045824001 / 274877906944))"
  unfolding jmul_Fin
  by (rule fl_eqI [where e = "14" and n = "5772436045824001"]) (simp_all add: pow2_def)

lemma round_2: "math_round (Fin (5772436045824001 / 274877906944)) = (Fin 21000)"
  by (rule math_round_eqI [where n = "21000"]) simp_all

lemma sub_1: "jsub (Fin 300000) (Fin 300000) = (Fin 0)"
  by (simp add: jsub_Fin fl_def)

lemma mul_3: "jmul (Fin 0) (Fin (7926335344172073 / 72057594037927936)) = (Fin 0)"
  by (simp add: jmul_Fin fl_def)

lemma add_1: "jadd (Fin 21000) (Fin 0) = (Fin 21000)"
  unfolding jadd_Fin
  by (rule fl_eqI [where e = "14" and n = "5772436045824000"]) (simp_all add: pow2_def)

lemma round_3: "math_round (Fin 21000) = (Fin 21000)"
  by (rule math_round_eqI [where n = "21000"]) simp_all

lemma sub_2: "jsub (Fin 600000) (Fin 300000) = (Fin 300000)"
  unfolding jsub_Fin
  by (rule fl_eqI [where e = "18" and n = "5153960755200000"]) (simp_all add: pow2_def)

lemma mul_4: "jmul (Fin 300000) (Fin (7926335344172073 / 72057594037927936)) = (Fin 33000)"
  unfolding jmul_Fin
  by (rule fl_eqI [where e = "15" and n = "4535485464576000"]) (simp_all add: pow2_def)

lemma add_2: "jadd (Fin 21000) (Fin 33000) = (Fin 54000)"
  unfolding jadd_Fin
  by (rule fl_eqI [where e = "15" and n = "7421703487488000"]) (simp_all add: pow2_def)

lemma round_4: "math_round (Fin 54000) = (Fin 54000)"
  by (rule math_round_eqI [where n = "54000"]) simp_all

lemma sub_3: "jsub (Fin 600000) (Fin 600000) = (Fin 0)"
  by (simp add: jsub_Fin fl_def)

lemma mul_5: "jmul (Fin 0) (Fin (5404319552844595 / 36028797018963968)) = (Fin 0)"
  by (simp add: jmul_Fin fl_def)

lemma add_3: "jadd (Fin 54000) (Fin 0) = (Fin 54000)"
  unfolding jadd_Fin
  by (rule fl_eqI [where e = "15" and n = "7421703487488000"]) (simp_all add: pow2_def)

lemma sub_4: "jsub (Fin 1100000) (Fin 600000) = (Fin 500000)"
  unfolding jsub_Fin
  by (rule fl_eqI [where e = "18" and n = "8589934592000000"]) (simp_all add: pow2_def)

lemma mul_6: "jmul (Fin 500000) (Fin (5404319552844595 / 36028797018963968)) = (Fin 75000)"
  unfolding jmul_Fin
  by (rule fl_eqI [where e = "16" and n = "5153960755200000"]) (simp_all add: pow2_def)

lemma add_4: "jadd (Fin 54000) (Fin 75000) = (Fin 129000)"
  unfolding jadd_Fin
  by (rule fl_eqI [where e = "16" and n = "8864812498944000"]) (simp_all add: pow2_def)

lemma round_5: "math_round (Fin 129000) = (Fin 129000)"
  by (rule math_round_eqI [where n = "129000"]) simp_all

lemma sub_5: "jsub (Fin 1100000) (Fin 1100000) = (Fin 0)"
  by (simp add: jsub_Fin fl_def)

lemma mul_7: "jmul (Fin 0) (Fin (3422735716801577 / 18014398509481984)) = (Fin 0)"
  by (simp add: jmul_Fin fl_def)

lemma add_5: "jadd (Fin 129000) (Fin 0) = (Fin 129000)"
  unfolding jadd_Fin
  by (rule fl_eqI [where e = "16" and n = "8864812498944000"]) (simp_all add: pow2_def)

lemma sub_6: "jsub (Fin 1600000) (Fin 1100000) = (Fin 500000)"
  unfolding jsub_Fin
  by (rule fl_eqI [where e = "18" and n = "8589934592000000"]) (simp_all add: pow2_def)

lemma mul_8: "jmul (Fin 500000) (Fin (3422735716801577 / 18014398509481984)) = (Fin 95000)"
  unfolding jmul_Fin
  by (rule fl_eqI [where e = "16" and n = "6528350289920000"]) (simp_all add: pow2_def)

lemma add_6: "jadd (Fin 129000) (Fin 95000) = (Fin 224000)"
  unfolding jadd_Fin
  by (rule fl_eqI [where e = "17" and n = "7696581394432000"]) (simp_all add: pow2_def)

lemma round_6: "math_round (Fin 224000) = (Fin 224000)"
  by (rule math_round_eqI [where n = "224000"]) simp_all

lemma sub_7: "jsub (Fin 1600000) (Fin 1600000) = (Fin 0)"
  by (simp add: jsub_Fin fl_def)

lemma mul_9: "jmul (Fin 0) (Fin (7566047373982433 / 36028797018963968)) = (Fin 0)"
  by (simp add: jmul_Fin fl_def)

lemma add_7: "jadd (Fin 224000) (Fin 0) = (Fin 224000)"
  unfolding jadd_Fin
  by (rule fl_eqI [where e = "17" and n = "7696581394432000"]) (simp_all add: pow2_def)

lemma sub_8: "jsub (Fin 3200000) (Fin 1600000) = (Fin 1600000)"
  unfolding jsub_Fin
  by (rule fl_eqI [where e = "20" and n = "6871947673600000"]) (simp_all add: pow2_def)

lemma mul_10: "jmul (Fin 1600000) (Fin (7566047373982433 / 36028797018963968)) = (Fin 336000)"
  unfolding jmul_Fin
  by (rule fl_eqI [where e = "18" and n = "5772436045824000"]) (simp_all add: pow2_def)

lemma add_8: "jadd (Fin 224000) (Fin 336000) = (Fin 560000)"
  unfolding jadd_Fin
  by (rule fl_eqI [where e = "19" and n = "4810363371520000"]) (simp_all add: pow2_def)

lemma round_7: "math_round (Fin 560000) = (Fin 560000)"
  by (rule math_round_eqI [where n = "560000"]) simp_all

lemma sub_9: "jsub (Fin 3200000) (Fin 3200000) = (Fin 0)"
  by (simp add: jsub_Fin fl_def)

lemma mul_11: "jmul (Fin 0) (Fin (1080863910568919 / 4503599627370496)) = (Fin 0)"
  by (simp add: jmul_Fin fl_def)

lemma add_9: "jadd (Fin 560000) (Fin 0) = (Fin 560000)"
  unfolding jadd_Fin
  by (rule fl_eqI [where e = "19" and n = "4810363371520000"]) (simp_all add: pow2_def)

lemma mul_12: "jmul (Fin 1000000) (Fin (3602879701896397 / 18014398509481984)) = (Fin 200000)"
  unfolding jmul_Fin
  by (rule fl_eqI [where e = "17" and n = "6871947673600000"]) (simp_all add: pow2_def)

lemma add_10: "jadd (Fin 200000) (Fin 200000) = (Fin 400000)"
  unfolding jadd_Fin
  by (rule fl_eqI [where e = "18" and n = "6871947673600000"]) (simp_all add: pow2_def)

lemma add_11: "jadd (Fin 0) (Fin 0) = (Fin 0)"
  by (simp add: jadd_Fin fl_def)

lemma add_12: "jadd (Fin 0) (Fin 400000) = (Fin 400000)"
  unfolding jadd_Fin
  by (rule fl_eqI [where e = "18" and n = "6871947673600000"]) (simp_all add: pow2_def)

lemma sub_10: "jsub (Fin 1000000) (Fin 400000) = (Fin 600000)"
  unfolding jsub_Fin
  by (rule fl_eqI [where e = "19" and n = "5153960755200000"]) (simp_all add: pow2_def)

lemma div_1: "jdiv (Fin 54000) (Fin 12) = (Fin 4500)"
  by (simp only: jdiv_Fin) (rule fl_eqI [where e = "12" and n = "4947802324992000"], simp_all add: pow2_def)

lemma round_8: "math_round (Fin 4500) = (Fin 4500)"
  by (rule math_round_eqI [where n = "4500"]) simp_all

lemma mul_13: "jmul (Fin 250315) (Fin (3602879701896397 / 18014398509481984)) = (Fin 50063)"
  unfolding jmul_Fin
  by (rule fl_eqI [where e = "15" and n = "6880606327668736"]) (simp_all add: pow2_def)

lemma add_13: "jadd (Fin 200000) (Fin 50063) = (Fin 250063)"
  unfolding jadd_Fin
  by (rule fl_eqI [where e = "17" and n = "8592099255517184"]) (simp_all add: pow2_def)

lemma add_14: "jadd (Fin 0) (Fin 250063) = (Fin 250063)"
  unfolding jadd_Fin
  by (rule fl_eqI [where e = "17" and n = "8592099255517184"]) (simp_all add: pow2_def)

lemma sub_11: "jsub (Fin 250315) (Fin 250063) = (Fin 252)"
  unfolding jsub_Fin
  by (rule fl_eqI [where e = "7" and n = "8866461766385664"]) (simp_all add: pow2_def)

lemma mul_14: "jmul (Fin 252) (Fin (1261007895663739 / 18014398509481984)) = (Fin (1241304647293993 / 70368744177664))"
  unfolding jmul_Fin
  by (rule fl_eqI [where e = "4" and n = "4965218589175972"]) (simp_all add: pow2_def)

lemma round_9: "math_round (Fin (1241304647293993 / 70368744177664)) = (Fin 18)"
  by (rule math_round_eqI [where n = "18"]) simp_all

lemma div_2: "jdiv (Fin (1241304647293993 / 70368744177664)) (Fin 12) = (Fin (6620291452234629 / 4503599627370496))"
  by (simp only: jdiv_Fin) (rule fl_eqI [where e = "0" and n = "6620291452234629"], simp_all add: pow2_def)

lemma round_10: "math_round (Fin (6620291452234629 / 4503599627370496)) = (Fin 1)"
  by (rule math_round_eqI [where n = "1"]) simp_all

lemma div_3: "jdiv (Fin 18) (Fin 12) = (Fin (3 / 2))"
  by (simp only: jdiv_Fin) (rule fl_eqI [where e = "0" and n = "6755399441055744"], simp_all add: pow2_def)

lemma round_11: "math_round (Fin (3 / 2)) = (Fin 2)"
  by (rule math_round_eqI [where n = "2"]) simp_all

lemma lit_9: "lit (4000000000000001 / 10000000000) = (Fin (3435973836800001 / 8589934592))"
  unfolding lit_def
  by (rule fl_eqI [where e = "18" and n = "6871947673600002"]) (simp_all add: pow2_def)

lemma lit_10: "lit (2000000000000001 / 5000000000) = (Fin (6871947673600003 / 17179869184))"
  unfolding lit_def
  by (rule fl_eqI [where e = "18" and n = "6871947673600003"]) (simp_all add: pow2_def)

lemma lit_11: "lit (11996428571428583 / 100000000000) = (Fin (4121941470646861 / 34359738368))"
  unfolding lit_def
  by (rule fl_eqI [where e = "16" and n = "8243882941293722"]) (simp_all add: pow2_def)

lemma mul_15: "jmul (Fin (3435973836800001 / 8589934592)) (Fin (3602879701896397 / 18014398509481984)) = (Fin (2748779069440001 / 34359738368))"
  unfolding jmul_Fin
  by (rule fl_eqI [where e = "16" and n = "5497558138880002"]) (simp_all add: pow2_def)

lemma add_15: "jadd (Fin 200000) (Fin (2748779069440001 / 34359738368)) = (Fin 280000)"
  unfolding jadd_Fin
  by (rule fl_eqI [where e = "18" and n = "4810363371520000"]) (simp_all add: pow2_def)

lemma add_16: "jadd (Fin (4121941470646861 / 34359738368)) (Fin 0) = (Fin (4121941470646861 / 34359738368))"
  unfolding jadd_Fin
  by (rule fl_eqI [where e = "16" and n = "8243882941293722"]) (simp_all add: pow2_def)

lemma add_17: "jadd (Fin (4121941470646861 / 34359738368)) (Fin 280000) = (Fin (3435667053421715 / 8589934592))"
  unfolding jadd_Fin
  by (rule fl_eqI [where e = "18" and n = "6871334106843430"]) (simp_all add: pow2_def)

lemma sub_12: "jsub (Fin (3435973836800001 / 8589934592)) (Fin (3435667053421715 / 8589934592)) = (Fin (153391689143 / 4294967296))"
  unfolding jsub_Fin
  by (rule fl_eqI [where e = "5" and n = "5026338869837824"]) (simp_all add: pow2_def)

lemma mul_16: "jmul (Fin (153391689143 / 4294967296)) (Fin (1261007895663739 / 18014398509481984)) = (Fin (5629499534218363 / 2251799813685248))"
  unfolding jmul_Fin
  by (rule fl_eqI [where e = "1" and n = "5629499534218363"]) (simp_all add: pow2_def)

lemma round_12: "math_round (Fin (5629499534218363 / 2251799813685248)) = (Fin 3)"
  by (rule math_round_eqI [where n = "3"]) simp_all

lemma div_4: "jdiv (Fin (5629499534218363 / 2251799813685248)) (Fin 12) = (Fin (7505999378957817 / 36028797018963968))"
  by (simp only: jdiv_Fin) (rule fl_eqI [where e = "- 3" and n = "7505999378957817"], simp_all add: pow2_def)

lemma round_13: "math_round (Fin (7505999378957817 / 36028797018963968)) = (Fin 0)"
  by (rule math_round_eqI [where n = "0"]) simp_all

lemma mul_17: "jmul (Fin (6871947673600003 / 17179869184)) (Fin (3602879701896397 / 18014398509481984)) = (Fin (5497558138880003 / 68719476736))"
  unfolding jmul_Fin
  by (rule fl_eqI [where e = "16" and n = "5497558138880003"]) (simp_all add: pow2_def)

lemma add_18: "jadd (Fin 200000) (Fin (5497558138880003 / 68719476736)) = (Fin (4810363371520001 / 17179869184))"
  unfolding jadd_Fin
  by (rule fl_eqI [where e = "18" and n = "4810363371520001"]) (simp_all add: pow2_def)

lemma add_19: "jadd (Fin (4121941470646861 / 34359738368)) (Fin (4810363371520001 / 17179869184)) = (Fin (858916763355429 / 2147483648))"
  unfolding jadd_Fin
  by (rule fl_eqI [where e = "18" and n = "6871334106843432"]) (simp_all add: pow2_def)

lemma sub_13: "jsub (Fin (6871947673600003 / 17179869184)) (Fin (858916763355429 / 2147483648)) = (Fin (613566756571 / 17179869184))"
  unfolding jsub_Fin
  by (rule fl_eqI [where e = "5" and n = "5026338869829632"]) (simp_all add: pow2_def)

lemma mul_18: "jmul (Fin (613566756571 / 17179869184)) (Fin (1261007895663739 / 18014398509481984)) = (Fin (1407374883552297 / 562949953421312))"
  unfolding jmul_Fin
  by (rule fl_eqI [where e = "1" and n = "5629499534209188"]) (simp_all add: pow2_def)

lemma round_14: "math_round (Fin (1407374883552297 / 562949953421312)) = (Fin 2)"
  by (rule math_round_eqI [where n = "2"]) simp_all

lemma div_5: "jdiv (Fin (1407374883552297 / 562949953421312)) (Fin 12) = (Fin (469124961184099 / 2251799813685248))"
  by (simp only: jdiv_Fin) (rule fl_eqI [where e = "- 3" and n = "7505999378945584"], simp_all add: pow2_def)

lemma round_15: "math_round (Fin (469124961184099 / 2251799813685248)) = (Fin 0)"
  by (rule math_round_eqI [where n = "0"]) simp_all

lemma mul_19: "jmul (Fin 17) (Fin (5404319552844595 / 72057594037927936)) = (Fin (2871044762448691 / 2251799813685248))"
  unfolding jmul_Fin
  by (rule fl_eqI [where e = "0" and n = "5742089524897382"]) (simp_all add: pow2_def)

lemma mul_20: "jmul (Fin (2871044762448691 / 2251799813685248)) (Fin 100) = (Fin (8972014882652159 / 70368744177664))"
  unfolding jmul_Fin
  by (rule fl_eqI [where e = "6" and n = "8972014882652159"]) (simp_all add: pow2_def)

lemma round_16: "math_round (Fin (8972014882652159 / 70368744177664)) = (Fin 127)"
  by (rule math_round_eqI [where n = "127"]) simp_all

lemma div_6: "jdiv (Fin 127) (Fin 100) = (Fin (2859785763380265 / 2251799813685248))"
  by (simp only: jdiv_Fin) (rule fl_eqI [where e = "0" and n = "5719571526760530"], simp_all add: pow2_def)

lemma mul_21: "jmul (Fin 0) (Fin (5404319552844595 / 72057594037927936)) = (Fin 0)"
  by (simp add: jmul_Fin fl_def)

lemma mul_22: "jmul (Fin 0) (Fin 100) = (Fin 0)"
  by (simp add: jmul_Fin fl_def)

lemma div_7: "jdiv (Fin 0) (Fin 100) = (Fin 0)"
  by (simp add: fl_def)

lemma mul_23: "jmul (Fin (10001 / 2)) (Fin (5404319552844595 / 72057594037927936)) = (Fin (6597729473632665 / 17592186044416))"
  unfolding jmul_Fin
  by (rule fl_eqI [where e = "8" and n = "6597729473632665"]) (simp_all add: pow2_def)

lemma mul_24: "jmul (Fin (6597729473632665 / 17592186044416)) (Fin 100) = (Fin (150015 / 4))"
  unfolding jmul_Fin
  by (rule fl_eqI [where e = "15" and n = "5154476151275520"]) (simp_all add: pow2_def)

lemma round_17: "math_round (Fin (150015 / 4)) = (Fin 37504)"
  by (rule math_round_eqI [where n = "37504"]) simp_all

lemma div_8: "jdiv (Fin 37504) (Fin 100) = (Fin (6597773454097777 / 17592186044416))"
  by (simp only: jdiv_Fin) (rule fl_eqI [where e = "8" and n = "6597773454097777"], simp_all add: pow2_def)

lemma mul_25: "jmul (Fin 2024) (Fin (5404319552844595 / 72057594037927936)) = (Fin (5340987683084697 / 35184372088832))"
  unfolding jmul_Fin
  by (rule fl_eqI [where e = "7" and n = "5340987683084697"]) (simp_all add: pow2_def)

lemma mul_26: "jmul (Fin (5340987683084697 / 35184372088832)) (Fin 100) = (Fin (8345293254819839 / 549755813888))"
  unfolding jmul_Fin
  by (rule fl_eqI [where e = "13" and n = "8345293254819839"]) (simp_all add: pow2_def)

lemma round_18: "math_round (Fin (8345293254819839 / 549755813888)) = (Fin 15180)"
  by (rule math_round_eqI [where n = "15180"]) simp_all

lemma div_9: "jdiv (Fin 15180) (Fin 100) = (Fin (2670493841542349 / 17592186044416))"
  by (simp only: jdiv_Fin) (rule fl_eqI [where e = "7" and n = "5340987683084698"], simp_all add: pow2_def)

lemma fl_1: "fl (127 / 100) = (Fin (2859785763380265 / 2251799813685248))"
  by (rule fl_eqI [where e = "0" and n = "5719571526760530"]) (simp_all add: pow2_def)

lemma fl_2: "fl (32 / 25) = (Fin (5764607523034235 / 4503599627370496))"
  by (rule fl_eqI [where e = "0" and n = "5764607523034235"]) (simp_all add: pow2_def)

lemma fl_3: "fl (9376 / 25) = (Fin (6597773454097777 / 17592186044416))"
  by (rule fl_eqI [where e = "8" and n = "6597773454097777"]) (simp_all add: pow2_def)

lemma fl_4: "fl (759 / 5) = (Fin (2670493841542349 / 17592186044416))"
  by (rule fl_eqI [where e = "7" and n = "5340987683084698"]) (simp_all add: pow2_def)

lemmas rounding_steps =
  lit_1 lit_2 lit_3 lit_4 lit_5 lit_6 lit_7 lit_8 mul_1 round_1 mul_2 round_2 sub_1 mul_3
  add_1 round_3 sub_2 mul_4 add_2 round_4 sub_3 mul_5 add_3 sub_4 mul_6 add_4 round_5 sub_5
  mul_7 add_5 sub_6 mul_8 add_6 round_6 sub_7 mul_9 add_7 sub_8 mul_10 add_8 round_7 sub_9
  mul_11 add_9 mul_12 add_10 add_11 add_12 sub_10 div_1 round_8 mul_13 add_13 add_14 sub_11
  mul_14 round_9 div_2 round_10 div_3 round_11 lit_9 lit_10 lit_11 mul_15 add_15 add_16
  add_17 sub_12 mul_16 round_12 div_4 round_13 mul_17 add_18 add_19 sub_13 mul_18 round_14
  div_5 round_15 mul_19 mul_20 round_16 div_6 mul_21 mul_22 div_7 mul_23 mul_24 round_17
  div_8 mul_25 mul_26 round_18 div_9 fl_1 fl_2 fl_3 fl_4


section \<open>The schedule is monotone\<close>

lemma lit_values:
  "lit 0.07 = Fin (1261007895663739 / 18014398509481984)"
  "lit 0.11 = Fin (7926335344172073 / 72057594037927936)"
  "lit 0.15 = Fin (5404319552844595 / 36028797018963968)"
  "lit 0.19 = Fin (3422735716801577 / 18014398509481984)"
  "lit 0.21 = Fin (7566047373982433 / 36028797018963968)"
  "lit 0.24 = Fin (1080863910568919 / 4503599627370496)"
  by (simp_all add: rounding_steps)

lemma jlt_above:
  "jlt (Fin a) t \<Longrightarrow> b \<le> a \<Longrightarrow> jgt t (Fin b) \<and> \<not> jle t (Fin b) \<and> jle (Fin a) t"
  by (cases t) (auto simp: jgt_def jle_def)

lemma jle_or_above: "t \<noteq> NaN \<Longrightarrow> jle t (Fin k) \<or> jlt (Fin k) t"
  by (cases t) (auto simp: jle_def)

lemma band_tax_0: "\<not> jgt t (Fin 0) \<Longrightarrow> band_tax t = Fin 0"
  by (simp add: band_tax_def)

lemma band_tax_1: "jgt t (Fin 0) \<Longrightarrow> jle t (Fin 300000) \<Longrightarrow> band_tax t = jmul t (lit 0.07)"
  by (simp add: band_tax_def)

lemma band_tax_2:
  "jlt (Fin 300000) t \<Longrightarrow> jle t (Fin 600000) \<Longrightarrow> band_tax t = band 300000 21000 0.11 t"
  using jlt_above [of 300000 t 0] jlt_above [of 300000 t 300000]
  by (simp add: band_tax_def band_def)

lemma band_tax_3:
  "jlt (Fin 600000) t \<Longrightarrow> jle t (Fin 1100000) \<Longrightarrow> band_tax t = band 600000 54000 0.15 t"
  using jlt_above [of 600000 t 0] jlt_above [of 600000 t 300000] jlt_above [of 600000 t 600000]
  by (simp add: band_tax_def band_def)

lemma band_tax_4:
  "jlt (Fin 1100000) t \<Longrightarrow> jle t (Fin 1600000) \<Longrightarrow> band_tax t = band 1100000 129000 0.19 t"
  using jlt_above [of 1100000 t 0] jlt_above [of 1100000 t 300000]
    jlt_above [of 1100000 t 600000] jlt_above [of 1100000 t 1100000]
  by (simp add: band_tax_def band_def)

lemma band_tax_5:
  "jlt (Fin 1600000) t \<Longrightarrow> jle t (Fin 3200000) \<Longrightarrow> band_tax t = band 1600000 224000 0.21 t"
  using jlt_above [of 1600000 t 0] jlt_above [of 1600000 t 300000]
    jlt_above [of 1600000 t 600000] jlt_above [of 1600000 t 1100000]
    jlt_above [of 1600000 t 1600000]
  by (simp add: band_tax_def band_def)

lemma band_tax_6:
  "jlt (Fin 3200000) t \<Longrightarrow> band_tax t = band 3200000 560000 0.24 t"
  using jlt_above [of 3200000 t 0] jlt_above [of 3200000 t 300000]
    jlt_above [of 3200000 t 600000] jlt_above [of 3200000 t 1100000]
    jlt_above [of 3200000 t 1600000] jlt_above [of 3200000 t 3200000]
  by (simp add: band_tax_def band_def)

lemma band_mono:
  assumes "lit rate = Fin c" and "0 < c" and "jle s t"
  shows "jle (math_round (band lo base rate s)) (math_round (band lo base rate t))"
  unfolding band_def assms(1)
  by (intro math_round_mono jadd_mono jmul_mono jsub_mono assms)

lemma first_band_mono:
  assumes "jle s t"
  shows "jle (math_round (jmul s (lit 0.07))) (math_round (jmul t (lit 0.07)))"
  unfolding lit_values
  by (intro math_round_mono jmul_mono assms) simp

lemma band_ends:
  "math_round (jmul (Fin 0) (lit 0.07)) = Fin 0"
  "math_round (jmul (Fin 300000) (lit 0.07)) = Fin 21000"
  "math_round (band 300000 21000 0.11 (Fin 300000)) = Fin 21000"
  "math_round (band 300000 21000 0.11 (Fin 600000)) = Fin 54000"
  "math_round (band 600000 54000 0.15 (Fin 600000)) = Fin 54000"
  "math_round (band 600000 54000 0.15 (Fin 1100000)) = Fin 129000"
  "math_round (band 1100000 129000 0.19 (Fin 1100000)) = Fin 129000"
  "math_round (band 1100000 129000 0.19 (Fin 1600000)) = Fin 224000"
  "math_round (band 1600000 224000 0.21 (Fin 1600000)) = Fin 224000"
  "math_round (band 1600000 224000 0.21 (Fin 3200000)) = Fin 560000"
  "math_round (band 3200000 560000 0.24 (Fin 3200000)) = Fin 560000"
  by (simp_all add: band_def rounding_steps del: jadd.simps jmul.simps)

lemma math_round_zero: "math_round (Fin 0) = Fin 0"
  by (rule round_1)

lemma rounded_tax_0: "\<not> jgt t (Fin 0) \<Longrightarrow> rounded_tax t = Fin 0"
  by (simp add: rounded_tax_def band_tax_0 math_round_zero)

lemma upper_step:
  assumes prev: "\<And>t. jle t (Fin lo) \<Longrightarrow> jle (rounded_tax t) (Fin base)"
    and bt: "\<And>t. jlt (Fin lo) t \<Longrightarrow> jle t (Fin hi) \<Longrightarrow> band_tax t = band lo base rate t"
    and lit: "lit rate = Fin c" "0 < c"
    and top: "math_round (band lo base rate (Fin hi)) = Fin nxt"
    and le: "base \<le> nxt"
    and t: "jle t (Fin hi)"
  shows "jle (rounded_tax t) (Fin nxt)"
proof -
  from t have "t \<noteq> NaN" by (simp add: jle_not_NaN)
  then consider "jle t (Fin lo)" | "jlt (Fin lo) t" using jle_or_above by blast
  then show ?thesis
  proof cases
    case 1
    then have "jle (rounded_tax t) (Fin base)" by (rule prev)
    moreover have "jle (Fin base) (Fin nxt)" using le by (simp add: jle_simps)
    ultimately show ?thesis by (rule jle_trans)
  next
    case 2
    then have "rounded_tax t = math_round (band lo base rate t)"
      using t by (simp add: rounded_tax_def bt)
    moreover have "jle (math_round (band lo base rate t)) (math_round (band lo base rate (Fin hi)))"
      using lit t by (rule band_mono)
    ultimately show ?thesis by (simp add: top)
  qed
qed

lemma lower_step:
  assumes nxt: "\<And>t. jlt (Fin hi) t \<Longrightarrow> jle (Fin nxt) (rounded_tax t)"
    and bt: "\<And>t. jlt (Fin lo) t \<Longrightarrow> jle t (Fin hi) \<Longrightarrow> band_tax t = band lo base rate t"
    and lit: "lit rate = Fin c" "0 < c"
    and bot: "math_round (band lo base rate (Fin lo)) = Fin base"
    and le: "base \<le> nxt"
    and t: "jlt (Fin lo) t"
  shows "jle (Fin base) (rounded_tax t)"
proof -
  from t have nn: "t \<noteq> NaN" and lo: "jle (Fin lo) t"
    using jlt_above [of lo t lo] by (auto simp: jle_not_NaN)
  then consider "jle t (Fin hi)" | "jlt (Fin hi) t" using jle_or_above by blast
  then show ?thesis
  proof cases
    case 1
    then have "rounded_tax t = math_round (band lo base rate t)"
      using t by (simp add: rounded_tax_def bt)
    moreover have "jle (math_round (band lo base rate (Fin lo))) (math_round (band lo base rate t))"
      using lit lo by (rule band_mono)
    ultimately show ?thesis by (simp add: bot)
  next
    case 2
    then have "jle (Fin nxt) (rounded_tax t)" by (rule nxt)
    moreover have "jle (Fin base) (Fin nxt)" using le by (simp add: jle_simps)
    ultimately show ?thesis using jle_trans by blast
  qed
qed

lemma rounded_tax_le_1:
  assumes "jle t (Fin 300000)"
  shows "jle (rounded_tax t) (Fin 21000)"
proof (cases "jgt t (Fin 0)")
  case True
  with assms have "rounded_tax t = math_round (jmul t (lit 0.07))"
    by (simp add: rounded_tax_def band_tax_1)
  moreover have "jle (math_round (jmul t (lit 0.07))) (math_round (jmul (Fin 300000) (lit 0.07)))"
    using assms by (rule first_band_mono)
  ultimately show ?thesis by (simp only: band_ends)
next
  case False
  then show ?thesis by (simp add: rounded_tax_0 jle_simps)
qed

lemma rounded_tax_le_2: "jle t (Fin 600000) \<Longrightarrow> jle (rounded_tax t) (Fin 54000)"
  by (rule upper_step [OF rounded_tax_le_1 band_tax_2 lit_values(2) _ band_ends(4)]) simp_all

lemma rounded_tax_le_3: "jle t (Fin 1100000) \<Longrightarrow> jle (rounded_tax t) (Fin 129000)"
  by (rule upper_step [OF rounded_tax_le_2 band_tax_3 lit_values(3) _ band_ends(6)]) simp_all

lemma rounded_tax_le_4: "jle t (Fin 1600000) \<Longrightarrow> jle (rounded_tax t) (Fin 224000)"
  by (rule upper_step [OF rounded_tax_le_3 band_tax_4 lit_values(4) _ band_ends(8)]) simp_all

lemma rounded_tax_le_5: "jle t (Fin 3200000) \<Longrightarrow> jle (rounded_tax t) (Fin 560000)"
  by (rule upper_step [OF rounded_tax_le_4 band_tax_5 lit_values(5) _ band_ends(10)]) simp_all

lemma rounded_tax_ge_6:
  assumes "jlt (Fin 3200000) t"
  shows "jle (Fin 560000) (rounded_tax t)"
proof -
  have lo: "jle (Fin 3200000) t" using jlt_above [OF assms, of 3200000] by simp
  have "rounded_tax t = math_round (band 3200000 560000 0.24 t)"
    using assms by (simp add: rounded_tax_def band_tax_6)
  moreover have "jle (math_round (band 3200000 560000 0.24 (Fin 3200000)))
                     (math_round (band 3200000 560000 0.24 t))"
    using lit_values(6) _ lo by (rule band_mono) simp
  ultimately show ?thesis by (simp only: band_ends)
qed

lemma rounded_tax_ge_5: "jlt (Fin 1600000) t \<Longrightarrow> jle (Fin 224000) (rounded_tax t)"
  by (rule lower_step [OF rounded_tax_ge_6 band_tax_5 lit_values(5) _ band_ends(9)]) simp_all

lemma rounded_tax_ge_4: "jlt (Fin 1100000) t \<Longrightarrow> jle (Fin 129000) (rounded_tax t)"
  by (rule lower_step [OF rounded_tax_ge_5 band_tax_4 lit_values(4) _ band_ends(7)]) simp_all

lemma rounded_tax_ge_3: "jlt (Fin 600000) t \<Longrightarrow> jle (Fin 54000) (rounded_tax t)"
  by (rule lower_step [OF rounded_tax_ge_4 band_tax_3 lit_values(3) _ band_ends(5)]) simp_all

lemma rounded_tax_ge_2: "jlt (Fin 300000) t \<Longrightarrow> jle (Fin 21000) (rounded_tax t)"
  by (rule lower_step [OF rounded_tax_ge_3 band_tax_2 lit_values(2) _ band_ends(3)]) simp_all

lemma rounded_tax_ge_1:
  assumes "jgt t (Fin 0)"
  shows "jle (Fin 0) (rounded_tax t)"
proof -
  from assms have nn: "t \<noteq> NaN" and t0: "jle (Fin 0) t"
    by (cases t; auto simp: jgt_def jle_simps)+
  then consider "jle t (Fin 300000)" | "jlt (Fin 300000) t" using jle_or_above by blast
  then show ?thesis
  proof cases
    case 1
    with assms have "rounded_tax t = math_round (jmul t (lit 0.07))"
      by (simp add: rounded_tax_def band_tax_1)
    moreover have "jle (math_round (jmul (Fin 0) (lit 0.07))) (math_round (jmul t (lit 0.07)))"
      using t0 by (rule first_band_mono)
    ultimately show ?thesis by (simp only: band_ends)
  next
    case 2
    then have "jle (Fin 21000) (rounded_tax t)" by (rule rounded_tax_ge_2)
    moreover have "jle (Fin 0) (Fin 21000)" by (simp add: jle_simps)
    ultimately show ?thesis using jle_trans by blast
  qed
qed

lemma same_band:
  assumes bt: "\<And>t. jlt (Fin lo) t \<Longrightarrow> jle t (Fin hi) \<Longrightarrow> band_tax t = band lo base rate t"
    and lit: "lit rate = Fin c" "0 < c"
    and s: "jlt (Fin lo) s" and st: "jle s t" and t: "jle t (Fin hi)"
  shows "jle (rounded_tax s) (rounded_tax t)"
proof -
  have "jle s (Fin hi)" using st t by (rule jle_trans)
  moreover have "jlt (Fin lo) t" using s st by (cases s; cases t) (auto simp: jle_simps)
  ultimately have "rounded_tax s = math_round (band lo base rate s)"
    and "rounded_tax t = math_round (band lo base rate t)"
    using s t by (simp_all add: rounded_tax_def bt)
  then show ?thesis using band_mono [OF lit st] by simp
qed

lemma band_split:
  assumes prev: "\<And>t. jle t (Fin lo) \<Longrightarrow> jle (rounded_tax t) (Fin base)"
    and nxt: "\<And>t. jlt (Fin lo) t \<Longrightarrow> jle (Fin base) (rounded_tax t)"
    and bt: "\<And>t. jlt (Fin lo) t \<Longrightarrow> jle t (Fin hi) \<Longrightarrow> band_tax t = band lo base rate t"
    and lit: "lit rate = Fin c" "0 < c"
    and st: "jle s t" and lo: "jlt (Fin lo) t" and hi: "jle t (Fin hi)"
  shows "jle (rounded_tax s) (rounded_tax t)"
proof -
  from st have "s \<noteq> NaN" by (simp add: jle_not_NaN)
  then consider "jle s (Fin lo)" | "jlt (Fin lo) s" using jle_or_above by blast
  then show ?thesis
  proof cases
    case 1
    then have "jle (rounded_tax s) (Fin base)" by (rule prev)
    moreover have "jle (Fin base) (rounded_tax t)" using lo by (rule nxt)
    ultimately show ?thesis by (rule jle_trans)
  next
    case 2
    with bt lit show ?thesis using st hi by (rule same_band)
  qed
qed

lemma rounded_tax_mono:
  assumes st: "jle s t"
  shows "jle (rounded_tax s) (rounded_tax t)"
proof -
  from st have nn: "s \<noteq> NaN" "t \<noteq> NaN" by (simp_all add: jle_not_NaN)
  consider "\<not> jgt t (Fin 0)" | "jgt t (Fin 0)" "jle t (Fin 300000)"
    | "jlt (Fin 300000) t" "jle t (Fin 600000)"
    | "jlt (Fin 600000) t" "jle t (Fin 1100000)" | "jlt (Fin 1100000) t" "jle t (Fin 1600000)"
    | "jlt (Fin 1600000) t" "jle t (Fin 3200000)" | "jlt (Fin 3200000) t"
    using nn(2) jle_or_above by blast
  then show ?thesis
  proof cases
    case 1
    with st have "\<not> jgt s (Fin 0)"
      by (cases s; cases t) (auto simp: jgt_def jle_simps)
    with 1 show ?thesis by (simp add: rounded_tax_0 jle_simps)
  next
    case 2
    show ?thesis
    proof (cases "jgt s (Fin 0)")
      case True
      have "jle s (Fin 300000)" using st 2(2) by (rule jle_trans)
      with True 2 have "rounded_tax s = math_round (jmul s (lit 0.07))"
        and "rounded_tax t = math_round (jmul t (lit 0.07))"
        by (simp_all add: rounded_tax_def band_tax_1)
      then show ?thesis using first_band_mono [OF st] by simp
    next
      case False
      then show ?thesis using rounded_tax_ge_1 [OF 2(1)] by (simp add: rounded_tax_0)
    qed
  next
    case 3
    show ?thesis
      by (rule band_split [OF rounded_tax_le_1 rounded_tax_ge_2 band_tax_2 lit_values(2) _ st 3])
         simp_all
  next
    case 4
    show ?thesis
      by (rule band_split [OF rounded_tax_le_2 rounded_tax_ge_3 band_tax_3 lit_values(3) _ st 4])
         simp_all
  next
    case 5
    show ?thesis
      by (rule band_split [OF rounded_tax_le_3 rounded_tax_ge_4 band_tax_4 lit_values(4) _ st 5])
         simp_all
  next
    case 6
    show ?thesis
      by (rule band_split [OF rounded_tax_le_4 rounded_tax_ge_5 band_tax_5 lit_values(5) _ st 6])
         simp_all
  next
    case 7
    from nn(1) consider "jle s (Fin 3200000)" | "jlt (Fin 3200000) s"
      using jle_or_above by blast
    then show ?thesis
    proof cases
      case 1
      then have "jle (rounded_tax s) (Fin 560000)" by (rule rounded_tax_le_5)
      moreover have "jle (Fin 560000) (rounded_tax t)" using 7 by (rule rounded_tax_ge_6)
      ultimately show ?thesis by (rule jle_trans)
    next
      case 2
      with 7 have "rounded_tax s = math_round (band 3200000 560000 0.24 s)"
        and "rounded_tax t = math_round (band 3200000 560000 0.24 t)"
        by (simp_all add: rounded_tax_def band_tax_6)
      then show ?thesis using band_mono [OF lit_values(6) _ st, of 3200000 560000] by simp
    qed
  qed
qed

section \<open>Properties of the tax calculators\<close>

text \<open>
  C1. For a gross income of 1,000,000 and the reliefs 0, 0, 0, \<open>calculatePAYE\<close> returns the
  total reliefs 400,000, the taxable income 600,000 and the annual tax 54,000, which is
  the schedule's tax at the band boundary 600,000.
\<close>

theorem paye_million:
  "totalReliefs (calculatePAYE (Fin 1000000) no_reliefs) = Fin 400000
   \<and> taxableIncome (calculatePAYE (Fin 1000000) no_reliefs) = Fin 600000
   \<and> annualTax (calculatePAYE (Fin 1000000) no_reliefs) = Fin 54000
   \<and> band_tax (Fin 600000) = Fin 54000"
  by (simp add: calculatePAYE_def total_reliefs_def taxable_income_def standardRelief_def
        band_tax_def no_reliefs_def or_zero_def truthy_def math_max_def jgt_def jle_def
        rounding_steps
      del: jadd.simps jmul.simps jdiv.simps)

text \<open>
  C7, as stated, fails: for the gross income 250,315 the tax before rounding is 17.64,
  the annual tax 18 and the monthly tax 1, while 18 / 12 rounds to 2.
\<close>

theorem monthly_not_from_annual:
  "annualTax (calculatePAYE (Fin 250315) no_reliefs) = Fin 18
   \<and> monthlyTax (calculatePAYE (Fin 250315) no_reliefs) = Fin 1
   \<and> monthly_spec (calculatePAYE (Fin 250315) no_reliefs) = Fin 2"
  by (simp add: calculatePAYE_def total_reliefs_def taxable_income_def standardRelief_def
        band_tax_def no_reliefs_def or_zero_def truthy_def math_max_def jgt_def jle_def
        monthly_spec_def rounding_steps
      del: jadd.simps jmul.simps jdiv.simps)

text \<open>
  C7, amended. The annual tax is the schedule's tax on the returned taxable income,
  rounded; the monthly tax is that same tax before rounding, divided by 12 and rounded.
\<close>

theorem monthly_from_unrounded_tax:
  "annualTax (calculatePAYE g r) = math_round (band_tax (taxableIncome (calculatePAYE g r)))
   \<and> monthlyTax (calculatePAYE g r)
       = math_round (jdiv (band_tax (taxableIncome (calculatePAYE g r))) (Fin 12))"
  by (simp add: calculatePAYE_def Let_def)


subsection \<open>Rounding errors of the relief and VAT computations\<close>

lemma lit_fifth: "lit 0.2 = Fin (3602879701896397 / 18014398509481984)"
  by (simp add: rounding_steps)

lemma fl_step:
  assumes "\<bar>x\<bar> \<le> pow2 k" and "- 1022 \<le> k" and "k \<le> 1023"
  shows "fl x = Fin (nearest x)" and "\<bar>nearest x\<bar> \<le> pow2 k"
    and "\<bar>nearest x - x\<bar> \<le> pow2 (k - 53)"
  using assms by (simp_all add: fl_finite nearest_abs_le nearest_error_le)

lemma or_zero_ok:
  assumes "relief_ok x"
  shows "\<exists>v. or_zero x = Fin v \<and> \<bar>v\<bar> \<le> pow2 40"
proof (cases x)
  case (Fin v)
  with assms have "\<bar>v\<bar> \<le> 10 ^ 12" by (simp add: relief_ok_def)
  then have "\<bar>v\<bar> \<le> pow2 40" by (simp add: pow2_numeral)
  with Fin show ?thesis by (auto simp: or_zero_def truthy_def pow2_numeral)
qed (use assms in \<open>auto simp: relief_ok_def or_zero_def truthy_def pow2_numeral\<close>)

lemma relief_sum:
  assumes "relief_ok (pension r)" and "relief_ok (nhf r)" and "relief_ok (other r)"
  shows "\<exists>\<rho>. jadd (jadd (or_zero (pension r)) (or_zero (nhf r))) (or_zero (other r)) = Fin \<rho>
             \<and> \<bar>\<rho>\<bar> \<le> pow2 42"
proof -
  from or_zero_ok [OF assms(1)]
  obtain p where p: "or_zero (pension r) = Fin p" "\<bar>p\<bar> \<le> pow2 40" by auto
  from or_zero_ok [OF assms(2)]
  obtain n where n: "or_zero (nhf r) = Fin n" "\<bar>n\<bar> \<le> pow2 40" by auto
  from or_zero_ok [OF assms(3)]
  obtain o' where o': "or_zero (other r) = Fin o'" "\<bar>o'\<bar> \<le> pow2 40" by auto
  have "\<bar>p + n\<bar> \<le> pow2 41" using p(2) n(2) by (simp add: pow2_numeral)
  from fl_step(1,2) [OF this] have pn: "fl (p + n) = Fin (nearest (p + n))"
    and b: "\<bar>nearest (p + n)\<bar> \<le> pow2 41" by simp_all
  have "\<bar>nearest (p + n) + o'\<bar> \<le> pow2 42" using b o'(2) by (simp add: pow2_numeral)
  from fl_step(1,2) [OF this] have "fl (nearest (p + n) + o') = Fin (nearest (nearest (p + n) + o'))"
    and "\<bar>nearest (nearest (p + n) + o')\<bar> \<le> pow2 42" by simp_all
  then show ?thesis by (simp add: p n o' pn)
qed

lemma total_reliefs_value:
  assumes g: "0 \<le> g" "g \<le> pow2 40" and \<rho>: "\<bar>\<rho>\<bar> \<le> pow2 42"
  shows "\<exists>\<tau>. jadd (Fin \<rho>) (standardRelief (Fin g)) = Fin \<tau>
             \<and> \<bar>\<tau> - (\<rho> + 200000 + g * (3602879701896397 / 18014398509481984))\<bar> \<le> 1 / 512
             \<and> \<bar>\<tau>\<bar> \<le> pow2 43"
proof -
  let ?c = "3602879701896397 / 18014398509481984 :: rat"
  define x where "x = g * ?c"
  define F where "F = nearest x"
  define S where "S = nearest (200000 + F)"
  define T where "T = nearest (\<rho> + S)"
  have "g * ?c \<le> pow2 40 * ?c" using g(2) by (simp add: mult_right_mono)
  then have "\<bar>x\<bar> \<le> pow2 38" using g(1) by (simp add: x_def pow2_numeral)
  from fl_step [OF this] have F: "fl x = Fin F" "\<bar>F\<bar> \<le> pow2 38"
    "\<bar>F - x\<bar> \<le> pow2 (38 - 53)" by (simp_all add: F_def)
  have "\<bar>200000 + F\<bar> \<le> pow2 39" using F(2) by (simp add: pow2_numeral)
  from fl_step [OF this] have S: "fl (200000 + F) = Fin S" "\<bar>S\<bar> \<le> pow2 39"
    "\<bar>S - (200000 + F)\<bar> \<le> pow2 (39 - 53)" by (simp_all add: S_def)
  have "\<bar>\<rho> + S\<bar> \<le> pow2 43" using S(2) \<rho> by (simp add: pow2_numeral)
  from fl_step [OF this] have T: "fl (\<rho> + S) = Fin T" "\<bar>T\<bar> \<le> pow2 43"
    "\<bar>T - (\<rho> + S)\<bar> \<le> pow2 (43 - 53)" by (simp_all add: T_def)
  have "jmul (Fin g) (lit 0.2) = Fin F"
    by (simp only: lit_fifth jmul.simps F(1) [unfolded x_def])
  then have eq: "jadd (Fin \<rho>) (standardRelief (Fin g)) = Fin T"
    by (simp only: standardRelief_def jadd.simps S(1) T(1))
  have e1: "\<bar>F - x\<bar> \<le> 1 / 32768" using F(3) by (simp add: pow2_def)
  have e2: "\<bar>S - (200000 + F)\<bar> \<le> 1 / 16384" using S(3) by (simp add: pow2_def)
  have e3: "\<bar>T - (\<rho> + S)\<bar> \<le> 1 / 1024" using T(3) by (simp add: pow2_def)
  have "\<bar>T - (\<rho> + 200000 + x)\<bar> \<le> 1 / 512"
    using e1 e2 e3 by linarith
  with eq T(2) show ?thesis unfolding x_def by blast
qed

lemma taxable_income_value:
  assumes g: "0 \<le> g" "g \<le> 10 ^ 12"
    and r: "relief_ok (pension r)" "relief_ok (nhf r)" "relief_ok (other r)"
  shows "\<exists>\<rho> \<tau>. \<bar>\<tau> - (\<rho> + 200000 + g * (3602879701896397 / 18014398509481984))\<bar> \<le> 1 / 512
           \<and> jadd (jadd (or_zero (pension r)) (or_zero (nhf r))) (or_zero (other r)) = Fin \<rho>
           \<and> taxable_income (Fin g) r = Fin (max (nearest (g - \<tau>)) 0)"
proof -
  from g(2) have g40: "g \<le> pow2 40" by (simp add: pow2_numeral)
  obtain \<rho> where \<rho>: "jadd (jadd (or_zero (pension r)) (or_zero (nhf r))) (or_zero (other r)) = Fin \<rho>"
    "\<bar>\<rho>\<bar> \<le> pow2 42"
    using relief_sum [OF r] by blast
  obtain \<tau> where \<tau>: "jadd (Fin \<rho>) (standardRelief (Fin g)) = Fin \<tau>"
    "\<bar>\<tau> - (\<rho> + 200000 + g * (3602879701896397 / 18014398509481984))\<bar> \<le> 1 / 512"
    "\<bar>\<tau>\<bar> \<le> pow2 43"
    using total_reliefs_value [OF g(1) g40 \<rho>(2)] by blast
  have tr: "total_reliefs (Fin g) r = Fin \<tau>"
    by (simp only: total_reliefs_def \<rho>(1) \<tau>(1))
  have "\<bar>g - \<tau>\<bar> \<le> pow2 44" using g(1) g40 \<tau>(3) by (simp add: pow2_numeral)
  from fl_step(1) [OF this] have "fl (g - \<tau>) = Fin (nearest (g - \<tau>))" by simp
  then have "jsub (Fin g) (Fin \<tau>) = Fin (nearest (g - \<tau>))"
    by (simp add: jsub_def jneg_def)
  then have "taxable_income (Fin g) r = Fin (max (nearest (g - \<tau>)) 0)"
    by (simp add: taxable_income_def tr math_max_def max_def)
  with \<rho>(1) \<tau>(2) show ?thesis by blast
qed

lemma annual_tax_of_taxable:
  "annualTax (calculatePAYE g r) = rounded_tax (taxable_income g r)"
  by (simp add: calculatePAYE_def rounded_tax_def Let_def)

lemma lit_vat: "lit 0.075 = Fin (5404319552844595 / 72057594037927936)"
  by (simp add: rounding_steps)

lemma vat_value:
  assumes a: "0 \<le> a" "a \<le> 10 ^ 12"
  shows "\<exists>n. calculateVAT (Fin a) = fl (of_int n / 100)
             \<and> \<bar>of_int n / 100 - a * (75 / 1000)\<bar> \<le> 1 / 200 + 1 / 20000"
proof -
  let ?c = "5404319552844595 / 72057594037927936 :: rat"
  define x where "x = a * ?c"
  define x1 where "x1 = nearest x"
  define x2 where "x2 = nearest (x1 * 100)"
  define n where "n = \<lfloor>x2 + 1 / 2\<rfloor>"
  have "a * ?c \<le> 10 ^ 12 * ?c" using a(2) by (simp add: mult_right_mono)
  then have "\<bar>x\<bar> \<le> pow2 37" using a(1) by (simp add: x_def pow2_numeral)
  from fl_step [OF this] have x1: "fl x = Fin x1" "\<bar>x1\<bar> \<le> pow2 37"
    "\<bar>x1 - x\<bar> \<le> pow2 (37 - 53)" by (simp_all add: x1_def)
  have "\<bar>x1 * 100\<bar> \<le> pow2 44" using x1(2) by (simp add: pow2_numeral abs_mult)
  from fl_step [OF this] have x2: "fl (x1 * 100) = Fin x2" "\<bar>x2\<bar> \<le> pow2 44"
    "\<bar>x2 - x1 * 100\<bar> \<le> pow2 (44 - 53)" by (simp_all add: x2_def)
  have "jmul (Fin a) (lit 0.075) = Fin x1"
    by (simp only: lit_vat jmul.simps x1(1) [unfolded x_def])
  then have "jmul (jmul (Fin a) (lit 0.075)) (Fin 100) = Fin x2"
    by (simp only: jmul.simps x2(1))
  then have eq: "calculateVAT (Fin a) = fl (of_int n / 100)"
    by (simp add: calculateVAT_def math_round_def n_def)
  define y where "y = a * (75 / 1000)"
  have "x - y = - (a / 360287970189639680)"
    by (simp add: x_def y_def field_simps)
  moreover have "a / 360287970189639680 \<le> 10 ^ 12 / 360287970189639680"
    using a(2) by (simp only: divide_right_mono)
  ultimately have e0: "\<bar>x - y\<bar> \<le> 1 / 350000" using a(1) by simp
  have e1: "\<bar>x1 - x\<bar> \<le> 1 / 65536" using x1(3) by (simp add: pow2_def)
  have e2: "\<bar>x2 - x1 * 100\<bar> \<le> 1 / 512" using x2(3) by (simp add: pow2_def)
  have e3: "\<bar>of_int n - x2\<bar> \<le> 1 / 2" unfolding n_def by linarith
  have "\<bar>of_int n / 100 - y\<bar> \<le> 1 / 200 + 1 / 20000"
    using e0 e1 e2 e3 by linarith
  with eq show ?thesis unfolding y_def by blast
qed


text \<open>
  C6, as stated, fails. With a pension relief of 119964.28571428583, the gross incomes
  400000.0000000001 and 400000.0000000002 (two neighbouring binary64 values) give the
  annual taxes 3 and 2: the sum of the reliefs is rounded to even and rises by two grid
  steps where the income rises by one. And the gross income \<open>Infinity\<close> gives a taxable
  income of \<open>NaN\<close> and the annual tax 0, below the 54000 of the gross income 1,000,000.
\<close>

theorem paye_not_monotone:
  "jlt (lit 400000.0000000001) (lit 400000.0000000002)
   \<and> annualTax (calculatePAYE (lit 400000.0000000001) (pension_only (lit 119964.28571428583)))
       = Fin 3
   \<and> annualTax (calculatePAYE (lit 400000.0000000002) (pension_only (lit 119964.28571428583)))
       = Fin 2
   \<and> annualTax (calculatePAYE (Fin 1000000) no_reliefs) = Fin 54000
   \<and> annualTax (calculatePAYE PInf no_reliefs) = Fin 0"
proof -
  have "jlt (lit 400000.0000000001) (lit 400000.0000000002)"
    by (simp add: rounding_steps)
  moreover have
    "annualTax (calculatePAYE (lit 400000.0000000001) (pension_only (lit 119964.28571428583)))
       = Fin 3"
    by (simp add: calculatePAYE_def total_reliefs_def taxable_income_def standardRelief_def
          band_tax_def pension_only_def or_zero_def truthy_def math_max_def jgt_def jle_def
          rounding_steps
        del: jadd.simps jmul.simps jdiv.simps)
  moreover have
    "annualTax (calculatePAYE (lit 400000.0000000002) (pension_only (lit 119964.28571428583)))
       = Fin 2"
    by (simp add: calculatePAYE_def total_reliefs_def taxable_income_def standardRelief_def
          band_tax_def pension_only_def or_zero_def truthy_def math_max_def jgt_def jle_def
          rounding_steps
        del: jadd.simps jmul.simps jdiv.simps)
  moreover have "annualTax (calculatePAYE (Fin 1000000) no_reliefs) = Fin 54000"
    by (simp add: calculatePAYE_def total_reliefs_def taxable_income_def standardRelief_def
          band_tax_def no_reliefs_def or_zero_def truthy_def math_max_def jgt_def jle_def
          rounding_steps
        del: jadd.simps jmul.simps jdiv.simps)
  moreover have "annualTax (calculatePAYE PInf no_reliefs) = Fin 0"
    by (simp add: calculatePAYE_def total_reliefs_def taxable_income_def standardRelief_def
          band_tax_def no_reliefs_def or_zero_def truthy_def math_max_def jgt_def jle_def
          jsub_def jneg_def jsign_def fl_def round_1 lit_7 Let_def)
  ultimately show ?thesis by simp
qed

text \<open>
  C6, amended. For finite gross incomes \<open>0 \<le> g1 \<le> g2 \<le> 10^12\<close> that are equal or differ by
  at least 0.01, and the same reliefs, each absent or finite with magnitude at most
  \<open>10^12\<close>, the annual tax of \<open>g1\<close> is at most the annual tax of \<open>g2\<close>.
\<close>

theorem paye_monotone_in_gross:
  assumes "0 \<le> g1" and "g1 = g2 \<or> g1 + 1 / 100 \<le> g2" and "g2 \<le> 10 ^ 12"
    and r: "relief_ok (pension r)" "relief_ok (nhf r)" "relief_ok (other r)"
  shows "jle (annualTax (calculatePAYE (Fin g1) r)) (annualTax (calculatePAYE (Fin g2) r))"
proof -
  let ?c = "3602879701896397 / 18014398509481984 :: rat"
  from assms have g1: "0 \<le> g1" "g1 \<le> 10 ^ 12" and g2: "0 \<le> g2" "g2 \<le> 10 ^ 12"
    by auto
  obtain \<rho>1 \<tau>1 where t1: "\<bar>\<tau>1 - (\<rho>1 + 200000 + g1 * ?c)\<bar> \<le> 1 / 512"
    "jadd (jadd (or_zero (pension r)) (or_zero (nhf r))) (or_zero (other r)) = Fin \<rho>1"
    "taxable_income (Fin g1) r = Fin (max (nearest (g1 - \<tau>1)) 0)"
    using taxable_income_value [OF g1 r] by blast
  obtain \<rho>2 \<tau>2 where t2: "\<bar>\<tau>2 - (\<rho>2 + 200000 + g2 * ?c)\<bar> \<le> 1 / 512"
    "jadd (jadd (or_zero (pension r)) (or_zero (nhf r))) (or_zero (other r)) = Fin \<rho>2"
    "taxable_income (Fin g2) r = Fin (max (nearest (g2 - \<tau>2)) 0)"
    using taxable_income_value [OF g2 r] by blast
  from t1(2) t2(2) have same: "\<rho>2 = \<rho>1" by simp
  show ?thesis
  proof (cases "g1 = g2")
    case True
    have "jle (taxable_income (Fin g1) r) (taxable_income (Fin g1) r)"
      by (simp add: t1(3) jle_simps)
    then have "jle (rounded_tax (taxable_income (Fin g1) r)) (rounded_tax (taxable_income (Fin g1) r))"
      by (rule rounded_tax_mono)
    then show ?thesis
      by (simp only: annual_tax_of_taxable True)
  next
    case False
    with assms(2) have d: "g1 + 1 / 100 \<le> g2" by simp
    define a1 where "a1 = g1 * ?c"
    define a2 where "a2 = g2 * ?c"
    have b1: "\<bar>\<tau>1 - (\<rho>1 + 200000 + a1)\<bar> \<le> 1 / 512"
      and b2: "\<bar>\<tau>2 - (\<rho>1 + 200000 + a2)\<bar> \<le> 1 / 512"
      using t1(1) t2(1) same by (simp_all only: a1_def a2_def)
    have "a2 - a1 = (g2 - g1) * ?c"
      by (simp only: a1_def a2_def left_diff_distrib)
    also have "\<dots> \<le> (g2 - g1) * (1 / 4)"
      using d by (intro mult_left_mono) simp_all
    finally have "4 * a2 - 4 * a1 \<le> g2 - g1" by simp
    moreover from b1 have "\<rho>1 + 200000 + a1 - 1 / 512 \<le> \<tau>1"
      unfolding abs_le_iff by linarith
    moreover from b2 have "\<tau>2 \<le> \<rho>1 + 200000 + a2 + 1 / 512"
      unfolding abs_le_iff by linarith
    ultimately have "g1 - \<tau>1 \<le> g2 - \<tau>2" using d by linarith
    then have "nearest (g1 - \<tau>1) \<le> nearest (g2 - \<tau>2)" by (rule nearest_mono)
    then have "jle (taxable_income (Fin g1) r) (taxable_income (Fin g2) r)"
      by (simp add: t1(3) t2(3) jle_simps max_def)
    then have "jle (rounded_tax (taxable_income (Fin g1) r)) (rounded_tax (taxable_income (Fin g2) r))"
      by (rule rounded_tax_mono)
    then show ?thesis
      by (simp only: annual_tax_of_taxable)
  qed
qed

theorem paye_monotone_in_gross_witness:
  "jle (annualTax (calculatePAYE (Fin 500000) no_reliefs))
       (annualTax (calculatePAYE (Fin 1000000) no_reliefs))"
  using paye_monotone_in_gross [of 500000 1000000 no_reliefs]
  by (simp add: relief_ok_def no_reliefs_def)

text \<open>
  The annual tax is a monotone function of the taxable income, for all numbers.
\<close>

lemma annual_tax_monotone_in_taxable:
  "jle (taxable_income g1 r1) (taxable_income g2 r2) \<Longrightarrow>
     jle (annualTax (calculatePAYE g1 r1)) (annualTax (calculatePAYE g2 r2))"
  by (simp only: annual_tax_of_taxable rounded_tax_mono)

text \<open>
  C2, as stated, fails: 17 * 0.075 is 1.275, which rounds to 1.28 at two decimals, and
  \<open>calculateVAT(17)\<close> is 1.27, because the binary64 product 17 * 0.075 * 100 is just
  below 127.5.
\<close>

theorem vat_seventeen:
  "calculateVAT (Fin 17) = fl 1.27 \<and> vat_spec 17 = fl 1.28 \<and> fl 1.27 \<noteq> fl 1.28"
  by (simp add: calculateVAT_def vat_spec_def round2dp_def rounding_steps
      del: jadd.simps jmul.simps jdiv.simps)

lemma vat_samples:
  "calculateVAT (Fin 0) = Fin 0"
  "calculateVAT (Fin 5000.5) = fl 375.04"
  "calculateVAT (Fin 2024) = fl 151.8"
  by (simp_all add: calculateVAT_def rounding_steps del: jadd.simps jmul.simps jdiv.simps)

lemma parseFloat_sample:
  "parseFloat (str ''5000.50'') = Fin 5000.5"
  "parseFloat (str ''2024-01-01'') = Fin 2024"
  by code_simp+

text \<open>
  The dashboard's replacement for a missing \<open>calculateVAT\<close> agrees with the application's
  method at 17: both give 1.27.
\<close>

lemma vat_fallback_seventeen: "calculateVAT_fallback (Fin 17) = fl 1.27"
proof -
  have "\<lfloor>72057594037927931 / 562949953421312 :: rat\<rfloor> = 127"
    by (rule floor_unique) simp_all
  then show ?thesis
    by (simp add: calculateVAT_fallback_def rounding_steps
        del: jadd.simps jmul.simps jdiv.simps)
qed

text \<open>A CSV row is committed with the VAT of its amount, whatever \<open>calculateVAT\<close> is.\<close>

lemma csv_fuel_row_amount:
  "committed (processCSV calcVAT (str ''jan.csv'') (\<lambda>i. sample_clock)
                (str ''Details,Amount'' @ [10] @ str ''Fuel purchase,5000.50'') empty_app)
     = [(str ''VAT'', calcVAT (parseFloat (str ''5000.50'')))]"
  by code_simp

lemma csv_fuel_row:
  "committed (processCSV calculateVAT (str ''jan.csv'') (\<lambda>i. sample_clock)
                (str ''Details,Amount'' @ [10] @ str ''Fuel purchase,5000.50'') empty_app)
     = [(str ''VAT'', fl 375.04)]"
  by (simp only: csv_fuel_row_amount parseFloat_sample vat_samples)

text \<open>
  A row that starts with a date gives the year as its amount: \<open>parseFloat\<close> reads the
  longest numeric prefix of \<open>2024-01-01\<close>.
\<close>

lemma csv_date_row_amount:
  "committed (processCSV calcVAT (str ''jan.csv'') (\<lambda>i. sample_clock)
                (str ''2024-01-01, 5000.50, \"Fuel purchase\"'') empty_app)
     = [(str ''VAT'', calcVAT (parseFloat (str ''2024-01-01'')))]"
  by code_simp

lemma csv_date_row:
  "committed (processCSV calculateVAT (str ''jan.csv'') (\<lambda>i. sample_clock)
                (str ''2024-01-01, 5000.50, \"Fuel purchase\"'') empty_app)
     = [(str ''VAT'', fl 151.8)]"
  by (simp only: csv_date_row_amount parseFloat_sample vat_samples)

text \<open>
  A file of one field, and a file whose only line contains \<open>date\<close> (in \<open>Update\<close>) and is
  taken for the header, have no base amount.
\<close>

lemma csv_rows_without_amount:
  "base_amounts (str ''5000.50'') = []"
  "base_amounts (str ''Update fee,5000.50'') = []"
  by code_simp+

text \<open>
  C2, amended. For every finite amount from 0 to \<open>10^12\<close>, \<open>calculateVAT(amount)\<close> is the
  binary64 value nearest to \<open>n / 100\<close> for an integer \<open>n\<close> with
  \<open>|n / 100 - amount * 0.075| \<le> 0.005 + 0.00005\<close>: the VAT rounded to two decimals, up to
  one hundredth when the exact VAT lies within 0.00005 of a tie. \<open>calculateVAT(0)\<close> is 0 and
  \<open>calculateVAT(5000.50)\<close> is 375.04. The import of a CSV file appends one VAT transaction
  for every base amount of its data rows, in row order, with the \<open>calculateVAT\<close> of that
  amount, so for a base amount of 5000.50 the committed amount is 375.04.
\<close>

theorem vat_two_decimals:
  assumes "0 \<le> a" and "a \<le> 10 ^ 12"
  shows "(\<exists>n. calculateVAT (Fin a) = fl (of_int n / 100)
              \<and> \<bar>of_int n / 100 - a * (75 / 1000)\<bar> \<le> 1 / 200 + 1 / 20000)
         \<and> calculateVAT (Fin 0) = Fin 0
         \<and> calculateVAT (parseFloat (str ''5000.50'')) = fl 375.04
         \<and> ledger_entries (ledger_after (processCSV calculateVAT fileName cks text s) s)
             = ledger_entries s @ map (\<lambda>x. (str ''VAT'', calculateVAT x)) (base_amounts text)
         \<and> (\<forall>k < length (base_amounts text). base_amounts text ! k = Fin 5000.5
              \<longrightarrow> ledger_entries (ledger_after (processCSV calculateVAT fileName cks text s) s)
                    ! (length (ledger_entries s) + k) = (str ''VAT'', fl 375.04))"
proof -
  let ?after = "ledger_entries (ledger_after (processCSV calculateVAT fileName cks text s) s)"
  have rows: "?after
      = ledger_entries s @ map (\<lambda>x. (str ''VAT'', calculateVAT x)) (base_amounts text)"
    by (rule processCSV_entries)
  have "?after ! (length (ledger_entries s) + k) = (str ''VAT'', fl 375.04)"
    if "k < length (base_amounts text)" and "base_amounts text ! k = Fin 5000.5" for k
    using that vat_samples(2) by (simp add: rows nth_append)
  with rows vat_value [OF assms] vat_samples(1,2) parseFloat_sample(1) show ?thesis
    by simp
qed

theorem vat_two_decimals_witness:
  "(\<exists>n. calculateVAT (Fin 5000.5) = fl (of_int n / 100)
         \<and> \<bar>of_int n / 100 - (5000.5 :: rat) * (75 / 1000)\<bar> \<le> 1 / 200 + 1 / 20000)
   \<and> calculateVAT (Fin 0) = Fin 0
   \<and> base_amounts (str ''Details,Amount'' @ [10] @ str ''Fuel purchase,5000.50'') = [Fin 5000.5]
   \<and> ledger_entries (ledger_after
        (processCSV calculateVAT (str ''jan.csv'') (\<lambda>i. sample_clock)
           (str ''Details,Amount'' @ [10] @ str ''Fuel purchase,5000.50'') empty_app) empty_app)
       = [(str ''VAT'', fl 375.04)]"
proof -
  let ?text = "str ''Details,Amount'' @ [10] @ str ''Fuel purchase,5000.50''"
  have amounts: "base_amounts ?text = [Fin 5000.5]"
    by code_simp
  have empty: "ledger_entries empty_app = []"
    by (simp add: ledger_entries_def empty_app_def)
  from vat_two_decimals [of "5000.5" "str ''jan.csv''" "\<lambda>i. sample_clock" ?text empty_app]
  have bound: "\<exists>n. calculateVAT (Fin 5000.5) = fl (of_int n / 100)
         \<and> \<bar>of_int n / 100 - (5000.5 :: rat) * (75 / 1000)\<bar> \<le> 1 / 200 + 1 / 20000"
    and zero: "calculateVAT (Fin 0) = Fin 0"
    and sample: "calculateVAT (parseFloat (str ''5000.50'')) = fl 375.04"
    and rows: "ledger_entries (ledger_after
        (processCSV calculateVAT (str ''jan.csv'') (\<lambda>i. sample_clock) ?text empty_app) empty_app)
       = ledger_entries empty_app
         @ map (\<lambda>x. (str ''VAT'', calculateVAT x)) (base_amounts ?text)"
    by simp_all
  from sample have vat: "calculateVAT (Fin 5000.5) = fl 375.04"
    by (simp add: parseFloat_sample(1))
  have "ledger_entries (ledger_after
        (processCSV calculateVAT (str ''jan.csv'') (\<lambda>i. sample_clock) ?text empty_app) empty_app)
       = [(str ''VAT'', fl 375.04)]"
    by (simp only: rows amounts empty vat list.map append_Nil)
  with bound zero amounts show ?thesis
    by (intro conjI)
qed

end
